theory Spec2Isabelle
  imports Main "HOL-Library.Word" "HOL-Library.Sublist"
begin

unbundle bit_operations_syntax

section \<open>The HTTP bridge of src/http/http\_wasm.cpp\<close>

text \<open>
  C++ \<^verbatim>\<open>std::string\<close> and \<^verbatim>\<open>char *\<close> buffers are byte sequences: \<^typ>\<open>string\<close>, a list of
  8-bit characters. \<^verbatim>\<open>uint32_t\<close> is \<^typ>\<open>32 word\<close>. A nullable pointer is an \<open>option\<close>.
\<close>

subsection \<open>URL normalisation\<close>

text \<open>
  \<^verbatim>\<open>path[0]\<close> on a \<^verbatim>\<open>std::string\<close>: at position \<^verbatim>\<open>size()\<close> the operator returns the
  terminating NUL character, so the empty string reads as \<open>CHR 0x00\<close>.
\<close>

definition first_char :: "string \<Rightarrow> char" where
  "first_char s = (case s of [] \<Rightarrow> CHR 0x00 | c # _ \<Rightarrow> c)"

text \<open>
  \<^verbatim>\<open>path.rfind(p, 0) != 0\<close>: a backwards search that starts at position 0 can only
  match at position 0, so the test is "p is not a prefix of path".
\<close>

definition NormalizeUrl :: "string \<Rightarrow> string \<Rightarrow> string" where
  "NormalizeUrl host_port url =
     (let path = url;
          path = (if first_char path = CHR ''/'' then host_port @ url else path);
          path = (if \<not> prefix ''https://'' path \<and> \<not> prefix ''http://'' path
                  then ''https://'' @ path else path)
      in path)"

text \<open>The normaliser as the specification words it (section 4.2), for comparison.\<close>

definition begins_with :: "string \<Rightarrow> string \<Rightarrow> bool" where
  "begins_with p s = (take (length p) s = p)"

definition normalize_spec :: "string \<Rightarrow> string \<Rightarrow> string" where
  "normalize_spec url origin =
     (let rewritten = (if begins_with ''/'' url then origin @ url else url)
      in if begins_with ''http://'' rewritten \<or> begins_with ''https://'' rewritten
         then rewritten else ''https://'' @ rewritten)"

subsection \<open>The length-prefixed wire buffer\<close>

text \<open>
  Host side (the JavaScript of \<^verbatim>\<open>em_sync_request\<close> and \<^verbatim>\<open>em_sync_head_request\<close>):
  \<^verbatim>\<open>
    var len = responseBody.length;
    var resultPtr = _malloc(len + 4);
    Module.HEAPU8[resultPtr]     = len & 0xFF;
    Module.HEAPU8[resultPtr + 1] = (len >> 8) & 0xFF;
    Module.HEAPU8[resultPtr + 2] = (len >> 16) & 0xFF;
    Module.HEAPU8[resultPtr + 3] = (len >> 24) & 0xFF;
    Module.HEAPU8.set(responseBody, resultPtr + 4);
  \<close>
  JavaScript's bitwise operators first convert the number to a signed 32-bit integer
  (modulo \<open>2 ^ 32\<close>); \<^verbatim>\<open>>>\<close> is the arithmetic shift; a store into \<^verbatim>\<open>HEAPU8\<close> keeps
  the low 8 bits.
\<close>

definition js_ToInt32 :: "nat \<Rightarrow> 32 word" where
  "js_ToInt32 n = word_of_nat n"

definition heapu8_store :: "32 word \<Rightarrow> char" where
  "heapu8_store v = char_of (unat v)"

definition encode_wire :: "string \<Rightarrow> string" where
  "encode_wire payload =
     (let len = length payload in
      [heapu8_store (js_ToInt32 len AND 0xFF),
       heapu8_store (signed_drop_bit 8 (js_ToInt32 len) AND 0xFF),
       heapu8_store (signed_drop_bit 16 (js_ToInt32 len) AND 0xFF),
       heapu8_store (signed_drop_bit 24 (js_ToInt32 len) AND 0xFF)] @ payload)"

text \<open>
  Bridge side (\<^verbatim>\<open>DoRequest\<close> and \<^verbatim>\<open>DoHeadRequest\<close>):
  \<^verbatim>\<open>
    uint32_t len = 0;
    len |= ((uint8_t *)result)[0];
    len |= ((uint8_t *)result)[1] << 8;
    len |= ((uint8_t *)result)[2] << 16;
    len |= ((uint8_t *)result)[3] << 24;
    res->body = string(result + 4, len);
  \<close>
  The shifts are computed in 32 bits and the result is converted to \<^verbatim>\<open>uint32_t\<close>, so the
  bits are those of the 32-bit word. The buffer is the block \<open>result\<close> points to; a read
  past its end is undefined behaviour in C++ and is the value \<open>Inl OutOfBounds\<close> here.
  The other way a call can end without a result is a JavaScript exception that leaves a
  host primitive: nothing in the C++ catches it, so it unwinds the dispatch, and the call
  is the value \<open>Inl UncaughtException\<close>.
\<close>

datatype fault = OutOfBounds | UncaughtException

definition read_length :: "string \<Rightarrow> 32 word" where
  "read_length result =
     (let len = (0 :: 32 word);
          len = len OR of_char (result ! 0);
          len = len OR push_bit 8 (of_char (result ! 1));
          len = len OR push_bit 16 (of_char (result ! 2));
          len = len OR push_bit 24 (of_char (result ! 3))
      in len)"

definition decode_wire :: "string \<Rightarrow> fault + string" where
  "decode_wire result =
     (if length result < 4 then Inl OutOfBounds
      else let len = unat (read_length result) in
        if length result < 4 + len then Inl OutOfBounds
        else Inr (take len (drop 4 result)))"

subsection \<open>The response header block\<close>

text \<open>
  Modelled from the spec: \<^verbatim>\<open>HTTPHeaders\<close> is a type of the engine, declared outside src/.
  Section 3 calls a header set an ordered collection of (name, value) string pairs; a
  collection is the list of its pairs in iteration order and \<^verbatim>\<open>Insert\<close> adds a pair at
  the end.
\<close>

type_synonym HTTPHeaders = "(string \<times> string) list"

definition Insert :: "string \<Rightarrow> string \<Rightarrow> HTTPHeaders \<Rightarrow> HTTPHeaders" where
  "Insert name val hs = hs @ [(name, val)]"

text \<open>
  Modelled from the spec: \<^verbatim>\<open>StringUtil::Split\<close> is a helper of the engine, declared outside
  src/. Section 4.3 says the block is split on the separator: the pieces are the maximal
  stretches between occurrences of the separator, found left to right.
\<close>

function Split_from :: "string \<Rightarrow> string \<Rightarrow> string \<Rightarrow> string list" where
  "Split_from sep cur [] = [cur]"
| "Split_from sep cur (c # cs) =
     (if sep \<noteq> [] \<and> prefix sep (c # cs)
      then cur # Split_from sep [] (drop (length sep) (c # cs))
      else Split_from sep (cur @ [c]) cs)"
  by pat_completeness auto
termination
  by (relation "measure (\<lambda>(sep, cur, input). length input)") auto

definition Split :: "string \<Rightarrow> string \<Rightarrow> string list" where
  "Split input sep = Split_from sep [] input"

text \<open>
  \<^verbatim>\<open>line.find(':')\<close>: the position of the first occurrence, \<open>None\<close> for \<^verbatim>\<open>npos\<close>.
\<close>

definition find_char :: "char \<Rightarrow> string \<Rightarrow> nat option" where
  "find_char c s = (if c \<in> set s then Some (length (takeWhile (\<lambda>x. x \<noteq> c) s)) else None)"

text \<open>
  \<^verbatim>\<open>while (!value.empty() && value[0] == ' ') value = value.substr(1);\<close>
\<close>

fun trim_leading_spaces :: "string \<Rightarrow> string" where
  "trim_leading_spaces [] = []"
| "trim_leading_spaces (c # cs) = (if c = CHR '' '' then trim_leading_spaces cs else c # cs)"

text \<open>
  The loop of \<^verbatim>\<open>DoHeadRequest\<close> over the lines. \<^verbatim>\<open>substr(0, colon_pos)\<close> and
  \<^verbatim>\<open>substr(colon_pos + 1)\<close> are in range, since \<open>colon_pos < size\<close>.
\<close>

fun parse_header_lines :: "string list \<Rightarrow> HTTPHeaders \<Rightarrow> HTTPHeaders" where
  "parse_header_lines [] hs = hs"
| "parse_header_lines (line # lines) hs =
     (case find_char CHR '':'' line of
        None \<Rightarrow> parse_header_lines lines hs
      | Some colon_pos \<Rightarrow>
          (let name = take colon_pos line;
               val = drop (colon_pos + 1) line;
               val = trim_leading_spaces val
           in parse_header_lines lines (Insert name val hs)))"

definition parse_response_headers :: "string \<Rightarrow> HTTPHeaders" where
  "parse_response_headers headers_str =
     (let header_lines = Split headers_str [CHR 0x0D, CHR 0x0A]
      in parse_header_lines header_lines [])"

text \<open>
  A header set rendered as text, one \<^verbatim>\<open>Name: Value\r\n\<close> line per pair (section 8), and
  what a line of the block decodes to in the words of section 4.3.
\<close>

definition encode_as_text :: "HTTPHeaders \<Rightarrow> string" where
  "encode_as_text hs = concat (map (\<lambda>(n, v). n @ '': '' @ v @ [CHR 0x0D, CHR 0x0A]) hs)"

definition well_formed_header :: "string \<times> string \<Rightarrow> bool" where
  "well_formed_header nv =
     (CHR '':'' \<notin> set (fst nv) \<and> CHR 0x0A \<notin> set (fst nv) \<and> CHR 0x0A \<notin> set (snd nv))"

definition decode_line_spec :: "string \<Rightarrow> (string \<times> string) option" where
  "decode_line_spec line =
     (if CHR '':'' \<in> set line
      then Some (takeWhile (\<lambda>c. c \<noteq> CHR '':'') line,
                 dropWhile (\<lambda>c. c = CHR '' '') (tl (dropWhile (\<lambda>c. c \<noteq> CHR '':'') line)))
      else None)"

subsection \<open>Responses and request descriptors\<close>

text \<open>
  Modelled from the spec: \<^verbatim>\<open>HTTPStatusCode\<close>, \<^verbatim>\<open>HTTPResponse\<close> and the request-info classes
  are types of the engine, declared outside src/. The bridge names two status codes; the
  other constructors stand for the codes it never names. A response made by
  \<^verbatim>\<open>make_uniq<HTTPResponse>(code)\<close> has the code and empty reason, body and headers. One
  record stands for the five request-info classes: it has every field the bridge reads or
  writes.
\<close>

datatype HTTPStatusCode =
  INVALID | OK_200 | MovedPermanently_301 | BadRequest_400 | NotFound_404
  | InternalServerError_500

record HTTPResponse =
  status :: HTTPStatusCode
  reason :: string
  body :: string
  headers :: HTTPHeaders

definition make_response :: "HTTPStatusCode \<Rightarrow> HTTPResponse" where
  "make_response code = \<lparr>status = code, reason = [], body = [], headers = []\<rparr>"

record request_info =
  url :: string
  req_headers :: HTTPHeaders
  buffer_in :: "string option"
  buffer_in_len :: nat
  buffer_out :: string
  content_handler :: bool

subsection \<open>Memory and the trace of calls\<close>

text \<open>
  The heap is a store of blocks: \<^verbatim>\<open>malloc\<close> returns the address of a fresh block, a block
  holds characters or pointers, \<^verbatim>\<open>free\<close> removes it. The trace records, in order, every
  allocation and release, every call of a host primitive with the buffer it returned
  (\<open>None\<close> for the null pointer), the capability probe and every call of the content
  handler. Fresh memory is unspecified in C++; \<open>fresh_chars\<close> and \<open>fresh_ptrs\<close> stand
  for it, and the code below overwrites every cell before it is read. An allocation is
  taken to succeed, as the code takes it; addresses are never reused.
\<close>

type_synonym addr = nat

datatype block = Chars string | Ptrs "addr list"

datatype primitive = SyncRequest | AsyncRequest | SyncHead | AsyncHead

datatype event =
  Probe | Malloc addr | Free addr | HostCall primitive "string option"
  | ContentHandler string

record world =
  heap :: "addr \<Rightarrow> block option"
  next_addr :: addr
  trace :: "event list"

definition malloc :: "block \<Rightarrow> world \<Rightarrow> addr \<times> world" where
  "malloc b w =
     (next_addr w,
      w\<lparr>heap := (heap w)(next_addr w \<mapsto> b), next_addr := Suc (next_addr w),
        trace := trace w @ [Malloc (next_addr w)]\<rparr>)"

definition free :: "addr \<Rightarrow> world \<Rightarrow> world" where
  "free p w = w\<lparr>heap := (heap w)(p := None), trace := trace w @ [Free p]\<rparr>"

definition log_event :: "event \<Rightarrow> world \<Rightarrow> world" where
  "log_event e w = w\<lparr>trace := trace w @ [e]\<rparr>"

text \<open>\<^verbatim>\<open>z[i]\<close> as a read and \<^verbatim>\<open>z[i] = p\<close> as a write; outside the block both are faults.\<close>

definition peek_ptr :: "(addr \<Rightarrow> block option) \<Rightarrow> addr \<Rightarrow> nat \<Rightarrow> addr option" where
  "peek_ptr h z i =
     (case h z of Some (Ptrs ps) \<Rightarrow> if i < length ps then Some (ps ! i) else None
      | _ \<Rightarrow> None)"

definition poke_ptr :: "addr \<Rightarrow> nat \<Rightarrow> addr \<Rightarrow> world \<Rightarrow> fault + world" where
  "poke_ptr z i p w =
     (case heap w z of
        Some (Ptrs ps) \<Rightarrow>
          if i < length ps then Inr (w\<lparr>heap := (heap w)(z \<mapsto> Ptrs (ps[i := p]))\<rparr>)
          else Inl OutOfBounds
      | _ \<Rightarrow> Inl OutOfBounds)"

definition fresh_chars :: "nat \<Rightarrow> string" where
  "fresh_chars n = replicate n (CHR 0x00)"

definition fresh_ptrs :: "nat \<Rightarrow> addr list" where
  "fresh_ptrs n = replicate n 0"

definition memset_zero :: "string \<Rightarrow> nat \<Rightarrow> string" where
  "memset_zero dst n = replicate n (CHR 0x00) @ drop n dst"

definition memcpy :: "string \<Rightarrow> string \<Rightarrow> nat \<Rightarrow> string" where
  "memcpy dst src n = take n src @ drop n dst"

definition c_str :: "string \<Rightarrow> string" where
  "c_str s = s @ [CHR 0x00]"

subsection \<open>Outbound header marshaling\<close>

text \<open>
  \<^verbatim>\<open>
    z[i] = (char *)malloc(h.first.size() + 1);
    memset(z[i], 0, h.first.size() + 1);
    memcpy(z[i], h.first.c_str(), h.first.size());
  \<close>
\<close>

definition copy_string :: "string \<Rightarrow> world \<Rightarrow> addr \<times> world" where
  "copy_string s w =
     (let (p, w) = malloc (Chars (fresh_chars (length s + 1))) w;
          w = w\<lparr>heap := (heap w)(p \<mapsto> Chars (memcpy
                 (memset_zero (fresh_chars (length s + 1)) (length s + 1))
                 (c_str s) (length s)))\<rparr>
      in (p, w))"

fun PrepareHeaders_loop :: "addr \<Rightarrow> HTTPHeaders \<Rightarrow> nat \<Rightarrow> world \<Rightarrow> fault + world" where
  "PrepareHeaders_loop z [] i w = Inr w"
| "PrepareHeaders_loop z (h # hs) i w =
     (let (p, w) = copy_string (fst h) w in
      (case poke_ptr z i p w of
         Inl f \<Rightarrow> Inl f
       | Inr w \<Rightarrow>
           (let i = i + 1;
                (q, w) = copy_string (snd h) w in
            (case poke_ptr z i q w of
               Inl f \<Rightarrow> Inl f
             | Inr w \<Rightarrow> (let i = i + 1 in PrepareHeaders_loop z hs i w)))))"

definition PrepareHeaders :: "HTTPHeaders \<Rightarrow> world \<Rightarrow> fault + ((addr \<times> nat) \<times> world)" where
  "PrepareHeaders hs w =
     (let count = length hs;
          (z, w) = malloc (Ptrs (fresh_ptrs (count * 2))) w in
      (case PrepareHeaders_loop z hs 0 w of
         Inl f \<Rightarrow> Inl f
       | Inr w \<Rightarrow> Inr ((z, count), w)))"

fun FreeHeaders_loop :: "addr \<Rightarrow> nat list \<Rightarrow> world \<Rightarrow> fault + world" where
  "FreeHeaders_loop z [] w = Inr w"
| "FreeHeaders_loop z (i # is) w =
     (case peek_ptr (heap w) z i of
        None \<Rightarrow> Inl OutOfBounds
      | Some p \<Rightarrow> FreeHeaders_loop z is (free p w))"

definition FreeHeaders :: "addr \<Rightarrow> nat \<Rightarrow> world \<Rightarrow> fault + world" where
  "FreeHeaders z count w =
     (case FreeHeaders_loop z [0..<count * 2] w of
        Inl f \<Rightarrow> Inl f
      | Inr w \<Rightarrow> Inr (free z w))"


text \<open>The flat sequence of \<open>2N\<close> strings of \<open>N\<close> header pairs: name, value, name, value.\<close>

definition flat :: "HTTPHeaders \<Rightarrow> string list" where
  "flat hs = concat (map (\<lambda>(n, v). [n, v]) hs)"

subsection \<open>The host primitives\<close>

text \<open>
  The JavaScript of \<^verbatim>\<open>em_sync_request\<close> and \<^verbatim>\<open>em_sync_head_request\<close>. \<^verbatim>\<open>UTF8ToString(ptr)\<close>
  reads the characters at \<open>ptr\<close> up to the first NUL; \<^verbatim>\<open>HEAP32[(headerArray >> 2) + i]\<close>
  reads cell \<open>i\<close> of the pointer array. A JavaScript string is kept as its UTF-8 bytes.
  \<^verbatim>\<open>
    for (var i = 0; i < headerCount * 2; i += 2) {
        var ptr1 = HEAP32[(headerArray >> 2) + i];
        var ptr2 = HEAP32[(headerArray >> 2) + i + 1];
        try {
            var headerName = UTF8ToString(ptr1);
            var headerValue = UTF8ToString(ptr2);
            if (headerName === "Host") headerName = "X-Host-Override";
            if (headerName === "User-Agent") headerName = "X-User-Agent";
            xhr.setRequestHeader(headerName, headerValue);
        } catch (error) { console.warn("Error setting header:", error); }
    }
  \<close>
  The loop yields the arguments of the calls of \<^verbatim>\<open>setRequestHeader\<close>, in order.
\<close>

definition js_string :: "string \<Rightarrow> string" where
  "js_string cs = takeWhile (\<lambda>c. c \<noteq> CHR 0x00) cs"

definition UTF8ToString :: "(addr \<Rightarrow> block option) \<Rightarrow> addr \<Rightarrow> string option" where
  "UTF8ToString h p =
     (case h p of
        Some (Chars cs) \<Rightarrow> if CHR 0x00 \<in> set cs then Some (js_string cs) else None
      | _ \<Rightarrow> None)"

definition rename_reserved :: "string \<Rightarrow> string" where
  "rename_reserved n =
     (let headerName = n;
          headerName = (if headerName = ''Host'' then ''X-Host-Override'' else headerName);
          headerName = (if headerName = ''User-Agent'' then ''X-User-Agent'' else headerName)
      in headerName)"

definition js_header_at ::
  "(addr \<Rightarrow> block option) \<Rightarrow> addr \<Rightarrow> nat \<Rightarrow> (string \<times> string) option" where
  "js_header_at h headerArray i =
     (case peek_ptr h headerArray i of
        None \<Rightarrow> None
      | Some ptr1 \<Rightarrow>
          (case peek_ptr h headerArray (i + 1) of
             None \<Rightarrow> None
           | Some ptr2 \<Rightarrow>
               (case UTF8ToString h ptr1 of
                  None \<Rightarrow> None
                | Some headerName \<Rightarrow>
                    (case UTF8ToString h ptr2 of
                       None \<Rightarrow> None
                     | Some headerValue \<Rightarrow>
                         Some (rename_reserved headerName, headerValue)))))"

fun js_header_loop ::
  "(addr \<Rightarrow> block option) \<Rightarrow> addr \<Rightarrow> nat list \<Rightarrow> (string \<times> string) list option" where
  "js_header_loop h headerArray [] = Some []"
| "js_header_loop h headerArray (i # is) =
     (case js_header_at h headerArray i of
        None \<Rightarrow> None
      | Some nv \<Rightarrow>
          (case js_header_loop h headerArray is of
             None \<Rightarrow> None
           | Some rest \<Rightarrow> Some (nv # rest)))"

definition js_set_request_headers ::
  "(addr \<Rightarrow> block option) \<Rightarrow> nat \<Rightarrow> addr \<Rightarrow> (string \<times> string) list option" where
  "js_set_request_headers h headerCount headerArray =
     js_header_loop h headerArray (map (\<lambda>k. 2 * k) [0..<headerCount])"

text \<open>
  \<^verbatim>\<open>if (bodyPtr && bodyLen > 0)\<close>: the body bytes are read from the heap, \<open>None\<close> stands
  for \<^verbatim>\<open>xhr.send(null)\<close>.
\<close>

definition js_body ::
  "(addr \<Rightarrow> block option) \<Rightarrow> addr option \<Rightarrow> int \<Rightarrow> fault + string option" where
  "js_body h bodyPtr bodyLen =
     (case bodyPtr of
        None \<Rightarrow> Inr None
      | Some p \<Rightarrow>
          if bodyLen > 0 then
            (case h p of
               Some (Chars cs) \<Rightarrow>
                 if nat bodyLen \<le> length cs then Inr (Some (take (nat bodyLen) cs))
                 else Inl OutOfBounds
             | _ \<Rightarrow> Inl OutOfBounds)
          else Inr None)"

text \<open>
  The browser's \<^verbatim>\<open>XMLHttpRequest\<close> is outside the program: whether it is defined, whether
  \<^verbatim>\<open>xhr.open(method, url, false)\<close> raises for a method and a url, whether the assignment
  \<^verbatim>\<open>xhr.responseType = "arraybuffer"\<close> raises, and what a synchronous \<^verbatim>\<open>send\<close> of a request
  (method, url, headers set, body) results in, an exception or a completed exchange with
  a status, the response bytes and the text of \<^verbatim>\<open>getAllResponseHeaders()\<close>.

  \<^verbatim>\<open>open\<close> and the assignment of \<^verbatim>\<open>responseType\<close> stand outside every \<^verbatim>\<open>try\<close> of the
  primitives, so an exception of theirs leaves the primitive. An exception of
  \<^verbatim>\<open>setRequestHeader\<close> is caught inside the loop, which goes on with the next pair:
  \<open>xhr_send\<close> is given the calls of \<^verbatim>\<open>setRequestHeader\<close> the loop makes, in order, and what
  the browser makes of each is its own.
\<close>

datatype xhr_result = SendThrows | Completed nat string string

record browser =
  XMLHttpRequest_defined :: bool
  xhr_open_throws :: "string \<Rightarrow> string \<Rightarrow> bool"
  xhr_responseType_throws :: bool
  xhr_send :: "string \<Rightarrow> string \<Rightarrow> (string \<times> string) list \<Rightarrow> string option \<Rightarrow> xhr_result"

text \<open>
  The return of a primitive: the call is recorded with the buffer returned, and a buffer
  becomes a fresh block, the one the host allocates with \<^verbatim>\<open>_malloc\<close>.
\<close>

definition host_return :: "primitive \<Rightarrow> string option \<Rightarrow> world \<Rightarrow> addr option \<times> world" where
  "host_return prim r w =
     (let w = log_event (HostCall prim r) w in
      (case r of
         None \<Rightarrow> (None, w)
       | Some buf \<Rightarrow> (let (resultPtr, w) = malloc (Chars buf) w in (Some resultPtr, w))))"

text \<open>
  The end of the two synchronous primitives, from \<^verbatim>\<open>xhr.send\<close> on, for a request object
  with the headers \<open>installed\<close>: \<open>None\<close> for \<^verbatim>\<open>return 0\<close> (an exception of \<^verbatim>\<open>send\<close>,
  status 0 or a status from 400 on), the contents of the buffer the primitive allocates
  and fills otherwise.
\<close>

definition xhr_request ::
  "browser \<Rightarrow> string \<Rightarrow> string \<Rightarrow> (string \<times> string) list \<Rightarrow> string option \<Rightarrow> string option" where
  "xhr_request br method u installed bodyData =
     (case xhr_send br method u installed bodyData of
        SendThrows \<Rightarrow> None
      | Completed st responseBody responseHeaders \<Rightarrow>
          if st = 0 \<or> st \<ge> 400 then None else Some (encode_wire responseBody))"

definition xhr_head_request ::
  "browser \<Rightarrow> string \<Rightarrow> (string \<times> string) list \<Rightarrow> string option" where
  "xhr_head_request br u installed =
     (case xhr_send br ''HEAD'' u installed None of
        SendThrows \<Rightarrow> None
      | Completed st responseBody responseHeaders \<Rightarrow>
          if st = 0 \<or> st \<ge> 400 then None else Some (encode_wire responseHeaders))"

text \<open>
  The JavaScript of the synchronous primitives, in the order of the source: the test of
  \<^verbatim>\<open>typeof XMLHttpRequest\<close>, \<^verbatim>\<open>open\<close>, for \<^verbatim>\<open>em_sync_request\<close> the assignment of
  \<^verbatim>\<open>responseType\<close>, the header loop, the body, \<^verbatim>\<open>send\<close> and the result.
\<close>

definition sync_request_js ::
  "browser \<Rightarrow> (addr \<Rightarrow> block option) \<Rightarrow> string \<Rightarrow> string \<Rightarrow> nat \<Rightarrow> addr \<Rightarrow> addr option \<Rightarrow> int
   \<Rightarrow> fault + string option" where
  "sync_request_js br h u method headerCount headerArray bodyPtr bodyLen =
     (if \<not> XMLHttpRequest_defined br then Inr None
      else if xhr_open_throws br (js_string method) (js_string u) then Inl UncaughtException
      else if xhr_responseType_throws br then Inl UncaughtException
      else
        (case js_set_request_headers h headerCount headerArray of
           None \<Rightarrow> Inl OutOfBounds
         | Some installed \<Rightarrow>
             (case js_body h bodyPtr bodyLen of
                Inl f \<Rightarrow> Inl f
              | Inr bodyData \<Rightarrow>
                  Inr (xhr_request br (js_string method) (js_string u) installed bodyData))))"

definition sync_head_request_js ::
  "browser \<Rightarrow> (addr \<Rightarrow> block option) \<Rightarrow> string \<Rightarrow> nat \<Rightarrow> addr \<Rightarrow> fault + string option" where
  "sync_head_request_js br h u headerCount headerArray =
     (if \<not> XMLHttpRequest_defined br then Inr None
      else if xhr_open_throws br ''HEAD'' (js_string u) then Inl UncaughtException
      else
        (case js_set_request_headers h headerCount headerArray of
           None \<Rightarrow> Inl OutOfBounds
         | Some installed \<Rightarrow> Inr (xhr_head_request br (js_string u) installed)))"

definition em_sync_request ::
  "browser \<Rightarrow> string \<Rightarrow> string \<Rightarrow> nat \<Rightarrow> addr \<Rightarrow> addr option \<Rightarrow> int \<Rightarrow> world
   \<Rightarrow> fault + (addr option \<times> world)" where
  "em_sync_request br u method header_count header_array body_ptr body_len w =
     (case sync_request_js br (heap w) u method header_count header_array body_ptr body_len of
        Inl f \<Rightarrow> Inl f
      | Inr r \<Rightarrow> Inr (host_return SyncRequest r w))"

definition em_sync_head_request ::
  "browser \<Rightarrow> string \<Rightarrow> nat \<Rightarrow> addr \<Rightarrow> world \<Rightarrow> fault + (addr option \<times> world)" where
  "em_sync_head_request br u header_count header_array w =
     (case sync_head_request_js br (heap w) u header_count header_array of
        Inl f \<Rightarrow> Inl f
      | Inr r \<Rightarrow> Inr (host_return SyncHead r w))"

text \<open>
  Modelled from the spec: \<^verbatim>\<open>em_async_request\<close>, \<^verbatim>\<open>em_async_head_request\<close> and \<^verbatim>\<open>em_has_xhr\<close>
  are defined in http\_async.js, which is not under src/. Section 6 gives their
  signatures: each request primitive takes integers and pointers and returns a wire
  buffer or null, the probe returns an integer. By section 4.3 the rename of the reserved
  names is applied on the host side when the headers are installed on the request
  object, uniformly in both transport modes: the asynchronous primitives read the url,
  the method, the header pairs and the body from the heap as the synchronous ones do and
  install the pairs under the same names. By section 4.4 a failure of the host call, an
  exception included, is a null return, so no exception leaves them. What the host
  returns for the request made (method, url, headers installed, body), a wire buffer or
  null, is outside the program: the fields \<open>async_request\<close> and \<open>async_head_request\<close>.
\<close>

record host =
  has_xhr :: int
  browser :: browser
  async_request ::
    "string \<Rightarrow> string \<Rightarrow> (string \<times> string) list \<Rightarrow> string option \<Rightarrow> string option"
  async_head_request :: "string \<Rightarrow> (string \<times> string) list \<Rightarrow> string option"

definition async_request_js ::
  "host \<Rightarrow> (addr \<Rightarrow> block option) \<Rightarrow> string \<Rightarrow> string \<Rightarrow> nat \<Rightarrow> addr \<Rightarrow> addr option \<Rightarrow> int
   \<Rightarrow> fault + string option" where
  "async_request_js hst h u method headerCount headerArray bodyPtr bodyLen =
     (case js_set_request_headers h headerCount headerArray of
        None \<Rightarrow> Inl OutOfBounds
      | Some installed \<Rightarrow>
          (case js_body h bodyPtr bodyLen of
             Inl f \<Rightarrow> Inl f
           | Inr bodyData \<Rightarrow>
               Inr (async_request hst (js_string method) (js_string u) installed bodyData)))"

definition async_head_request_js ::
  "host \<Rightarrow> (addr \<Rightarrow> block option) \<Rightarrow> string \<Rightarrow> nat \<Rightarrow> addr \<Rightarrow> fault + string option" where
  "async_head_request_js hst h u headerCount headerArray =
     (case js_set_request_headers h headerCount headerArray of
        None \<Rightarrow> Inl OutOfBounds
      | Some installed \<Rightarrow> Inr (async_head_request hst (js_string u) installed))"

definition em_async_request ::
  "host \<Rightarrow> string \<Rightarrow> string \<Rightarrow> nat \<Rightarrow> addr \<Rightarrow> addr option \<Rightarrow> int \<Rightarrow> world
   \<Rightarrow> fault + (addr option \<times> world)" where
  "em_async_request hst u method header_count header_array body_ptr body_len w =
     (case async_request_js hst (heap w) u method header_count header_array body_ptr
             body_len of
        Inl f \<Rightarrow> Inl f
      | Inr r \<Rightarrow> Inr (host_return AsyncRequest r w))"

definition em_async_head_request ::
  "host \<Rightarrow> string \<Rightarrow> nat \<Rightarrow> addr \<Rightarrow> world \<Rightarrow> fault + (addr option \<times> world)" where
  "em_async_head_request hst u header_count header_array w =
     (case async_head_request_js hst (heap w) u header_count header_array of
        Inl f \<Rightarrow> Inl f
      | Inr r \<Rightarrow> Inr (host_return AsyncHead r w))"

definition em_has_xhr :: "host \<Rightarrow> world \<Rightarrow> int \<times> world" where
  "em_has_xhr hst w = (has_xhr hst, log_event Probe w)"


subsection \<open>The client and its verbs\<close>

text \<open>
  The constructor stores the origin and the answer of the probe; its \<^verbatim>\<open>printf\<close> is left
  out.
\<close>

record client =
  host_port :: string
  use_sync_xhr :: bool

definition HTTPWasmClient :: "host \<Rightarrow> string \<Rightarrow> world \<Rightarrow> client \<times> world" where
  "HTTPWasmClient hst proto_host_port w =
     (let (x, w) = em_has_xhr hst w
      in (\<lparr>host_port = proto_host_port, use_sync_xhr = (x = 1)\<rparr>, w))"

text \<open>\<^verbatim>\<open>(int)body_len\<close>: the low 32 bits, read as a signed integer.\<close>

definition int_cast :: "nat \<Rightarrow> int" where
  "int_cast n = sint (word_of_nat n :: 32 word)"

text \<open>
  The tail of \<^verbatim>\<open>DoRequest\<close>, from \<^verbatim>\<open>if (!result)\<close> on.
\<close>

definition request_result ::
  "addr option \<Rightarrow> bool \<Rightarrow> world \<Rightarrow> fault + (HTTPResponse \<times> world)" where
  "request_result result handler w =
     (case result of
        None \<Rightarrow>
          Inr ((make_response NotFound_404)
                 \<lparr>reason := ''Request failed - check console for errors''\<rparr>, w)
      | Some r \<Rightarrow>
          (case heap w r of
             Some (Chars buf) \<Rightarrow>
               (case decode_wire buf of
                  Inl f \<Rightarrow> Inl f
                | Inr bytes \<Rightarrow>
                    (let res = (make_response OK_200)\<lparr>body := bytes\<rparr>;
                         w = (if handler then log_event (ContentHandler bytes) w else w);
                         w = free r w
                     in Inr (res, w)))
           | _ \<Rightarrow> Inl OutOfBounds))"

text \<open>
  \<^verbatim>\<open>
    char *payload = nullptr;
    if (body_data && body_len > 0) {
        payload = (char *)malloc(body_len);
        memcpy(payload, body_data, body_len);
    }
  \<close>
\<close>

definition copy_payload ::
  "string option \<Rightarrow> nat \<Rightarrow> world \<Rightarrow> fault + (addr option \<times> world)" where
  "copy_payload body_data body_len w =
     (case body_data of
        None \<Rightarrow> Inr (None, w)
      | Some src \<Rightarrow>
          if body_len > 0 then
            (if body_len \<le> length src then
               (let (payload, w) = malloc (Chars (fresh_chars body_len)) w;
                    w = w\<lparr>heap := (heap w)(payload \<mapsto>
                          Chars (memcpy (fresh_chars body_len) src body_len))\<rparr>
                in Inr (Some payload, w))
             else Inl OutOfBounds)
          else Inr (None, w))"

definition DoRequest ::
  "host \<Rightarrow> client \<Rightarrow> string \<Rightarrow> string \<Rightarrow> HTTPHeaders \<Rightarrow> string option \<Rightarrow> nat \<Rightarrow> bool \<Rightarrow> world
   \<Rightarrow> fault + (HTTPResponse \<times> world)" where
  "DoRequest hst cl method u hs body_data body_len handler w =
     (let path = NormalizeUrl (host_port cl) u in
      (case PrepareHeaders hs w of
         Inl f \<Rightarrow> Inl f
       | Inr ((header_array, header_count), w) \<Rightarrow>
           (case copy_payload body_data body_len w of
              Inl f \<Rightarrow> Inl f
            | Inr (payload, w) \<Rightarrow>
                (case (if use_sync_xhr cl
                       then em_sync_request (browser hst) (c_str path) (c_str method)
                              header_count header_array payload (int_cast body_len) w
                       else em_async_request hst (c_str path) (c_str method)
                              header_count header_array payload (int_cast body_len) w) of
                   Inl f \<Rightarrow> Inl f
                 | Inr (result, w) \<Rightarrow>
                     (case FreeHeaders header_array header_count w of
                        Inl f \<Rightarrow> Inl f
                      | Inr w \<Rightarrow>
                          (let w = (case payload of None \<Rightarrow> w | Some p \<Rightarrow> free p w)
                           in request_result result handler w))))))"

text \<open>
  The tail of \<^verbatim>\<open>DoHeadRequest\<close>, from \<^verbatim>\<open>if (!result)\<close> on.
\<close>

definition head_result :: "addr option \<Rightarrow> world \<Rightarrow> fault + (HTTPResponse \<times> world)" where
  "head_result result w =
     (case result of
        None \<Rightarrow> Inr ((make_response NotFound_404)\<lparr>reason := ''HEAD request failed''\<rparr>, w)
      | Some r \<Rightarrow>
          (case heap w r of
             Some (Chars buf) \<Rightarrow>
               (case decode_wire buf of
                  Inl f \<Rightarrow> Inl f
                | Inr headers_str \<Rightarrow>
                    (let res = make_response OK_200;
                         res = res\<lparr>headers := parse_header_lines
                                  (Split headers_str [CHR 0x0D, CHR 0x0A]) (headers res)\<rparr>;
                         w = free r w
                     in Inr (res, w)))
           | _ \<Rightarrow> Inl OutOfBounds))"

definition DoHeadRequest ::
  "host \<Rightarrow> client \<Rightarrow> string \<Rightarrow> HTTPHeaders \<Rightarrow> world \<Rightarrow> fault + (HTTPResponse \<times> world)" where
  "DoHeadRequest hst cl u hs w =
     (let path = NormalizeUrl (host_port cl) u in
      (case PrepareHeaders hs w of
         Inl f \<Rightarrow> Inl f
       | Inr ((header_array, header_count), w) \<Rightarrow>
           (case (if use_sync_xhr cl
                  then em_sync_head_request (browser hst) (c_str path) header_count
                         header_array w
                  else em_async_head_request hst (c_str path) header_count header_array w) of
              Inl f \<Rightarrow> Inl f
            | Inr (result, w) \<Rightarrow>
                (case FreeHeaders header_array header_count w of
                   Inl f \<Rightarrow> Inl f
                 | Inr w \<Rightarrow> head_result result w))))"

text \<open>
  The verbs take the request info by reference: each returns the response, the info as
  the call leaves it, and the world. No method assigns a field of the client.
\<close>

definition Get ::
  "host \<Rightarrow> client \<Rightarrow> request_info \<Rightarrow> world
   \<Rightarrow> fault + (HTTPResponse \<times> request_info \<times> world)" where
  "Get hst cl info w =
     (case DoRequest hst cl ''GET'' (url info) (req_headers info) None 0
             (content_handler info) w of
        Inl f \<Rightarrow> Inl f
      | Inr (res, w) \<Rightarrow> Inr (res, info, w))"

definition Head ::
  "host \<Rightarrow> client \<Rightarrow> request_info \<Rightarrow> world
   \<Rightarrow> fault + (HTTPResponse \<times> request_info \<times> world)" where
  "Head hst cl info w =
     (case DoHeadRequest hst cl (url info) (req_headers info) w of
        Inl f \<Rightarrow> Inl f
      | Inr (res, w) \<Rightarrow> Inr (res, info, w))"

definition Post ::
  "host \<Rightarrow> client \<Rightarrow> request_info \<Rightarrow> world
   \<Rightarrow> fault + (HTTPResponse \<times> request_info \<times> world)" where
  "Post hst cl info w =
     (case DoRequest hst cl ''POST'' (url info) (req_headers info) (buffer_in info)
             (buffer_in_len info) False w of
        Inl f \<Rightarrow> Inl f
      | Inr (result, w) \<Rightarrow>
          (let info = (if status result = OK_200
                       then info\<lparr>buffer_out := buffer_out info @ body result\<rparr>
                       else info)
           in Inr (result, info, w)))"

definition Put ::
  "host \<Rightarrow> client \<Rightarrow> request_info \<Rightarrow> world
   \<Rightarrow> fault + (HTTPResponse \<times> request_info \<times> world)" where
  "Put hst cl info w =
     (case DoRequest hst cl ''PUT'' (url info) (req_headers info) (buffer_in info)
             (buffer_in_len info) False w of
        Inl f \<Rightarrow> Inl f
      | Inr (res, w) \<Rightarrow> Inr (res, info, w))"

definition Delete ::
  "host \<Rightarrow> client \<Rightarrow> request_info \<Rightarrow> world
   \<Rightarrow> fault + (HTTPResponse \<times> request_info \<times> world)" where
  "Delete hst cl info w =
     (case DoRequest hst cl ''DELETE'' (url info) (req_headers info) None 0 False w of
        Inl f \<Rightarrow> Inl f
      | Inr (res, w) \<Rightarrow> Inr (res, info, w))"

text \<open>
  The engine calls the verbs through the \<^verbatim>\<open>HTTPClient\<close> interface; a client's lifetime
  is its construction followed by a sequence of such calls.
\<close>

datatype verb = GET | HEAD | POST | PUT | DELETE

definition call_verb ::
  "host \<Rightarrow> client \<Rightarrow> verb \<Rightarrow> request_info \<Rightarrow> world
   \<Rightarrow> fault + (HTTPResponse \<times> request_info \<times> world)" where
  "call_verb hst cl v info w =
     (case v of
        GET \<Rightarrow> Get hst cl info w
      | HEAD \<Rightarrow> Head hst cl info w
      | POST \<Rightarrow> Post hst cl info w
      | PUT \<Rightarrow> Put hst cl info w
      | DELETE \<Rightarrow> Delete hst cl info w)"

fun run_calls :: "host \<Rightarrow> client \<Rightarrow> (verb \<times> request_info) list \<Rightarrow> world \<Rightarrow> fault + world" where
  "run_calls hst cl [] w = Inr w"
| "run_calls hst cl (c # cs) w =
     (case call_verb hst cl (fst c) (snd c) w of
        Inl f \<Rightarrow> Inl f
      | Inr (res, info, w) \<Rightarrow> run_calls hst cl cs w)"

definition client_lifetime ::
  "host \<Rightarrow> string \<Rightarrow> (verb \<times> request_info) list \<Rightarrow> world \<Rightarrow> fault + (client \<times> world)" where
  "client_lifetime hst proto_host_port calls w =
     (let (cl, w) = HTTPWasmClient hst proto_host_port w in
      (case run_calls hst cl calls w of
         Inl f \<Rightarrow> Inl f
       | Inr w \<Rightarrow> Inr (cl, w)))"


subsection \<open>Bookkeeping for a dispatch\<close>

text \<open>
  The definitions below name what a dispatch that starts with heap \<open>H\<close> and next address
  \<open>a\<close> builds: the addresses it allocates, the heap the host primitive sees, what the
  selected primitive returns, and the events of the dispatch. The lemmas of the next
  section show that the code computes exactly these.
\<close>

text \<open>\<open>upfrom a k\<close> is the \<open>k\<close> addresses from \<open>a\<close> on.\<close>

primrec upfrom :: "addr \<Rightarrow> nat \<Rightarrow> addr list" where
  "upfrom a 0 = []"
| "upfrom a (Suc k) = a # upfrom (Suc a) k"

text \<open>
  The heap while the loop of PrepareHeaders runs (cells \<open>i\<close> onwards of the array at \<open>z\<close>
  written with the addresses of the copies of \<open>fs\<close>), the heap it leaves (array at \<open>a\<close>,
  copies behind it), and a heap with the blocks of an address range removed.
\<close>

definition filled :: "(addr \<Rightarrow> block option) \<Rightarrow> addr \<Rightarrow> addr list \<Rightarrow> nat \<Rightarrow> addr \<Rightarrow> string list
    \<Rightarrow> (addr \<Rightarrow> block option)" where
  "filled H z ps i a fs =
     (\<lambda>x. if x = z
          then Some (Ptrs (take i ps @ upfrom a (length fs) @ drop (i + length fs) ps))
          else if a \<le> x \<and> x < a + length fs
          then Some (Chars (c_str (fs ! (x - a))))
          else H x)"

definition marshalled :: "(addr \<Rightarrow> block option) \<Rightarrow> addr \<Rightarrow> string list \<Rightarrow> (addr \<Rightarrow> block option)" where
  "marshalled H a fs =
     (\<lambda>x. if x = a then Some (Ptrs (upfrom (Suc a) (length fs)))
          else if Suc a \<le> x \<and> x < Suc a + length fs
          then Some (Chars (c_str (fs ! (x - Suc a))))
          else H x)"

definition clear :: "(addr \<Rightarrow> block option) \<Rightarrow> addr \<Rightarrow> addr \<Rightarrow> (addr \<Rightarrow> block option)" where
  "clear H a b = (\<lambda>x. if a \<le> x \<and> x < b then None else H x)"

text \<open>
  The header pairs the JavaScript loop installs; the bytes of the call-scoped body copy
  (\<open>None\<close> when no copy is made); the requirement that the body length is within the
  body; the heap, the body pointer and the next address at the host call.
\<close>

definition installed_headers :: "HTTPHeaders \<Rightarrow> (string \<times> string) list" where
  "installed_headers hs = map (\<lambda>(n, v). (rename_reserved (js_string n), js_string v)) hs"

definition payload_bytes :: "string option \<Rightarrow> nat \<Rightarrow> string option" where
  "payload_bytes bd bl =
     (case bd of None \<Rightarrow> None | Some src \<Rightarrow> if bl > 0 then Some (take bl src) else None)"

text \<open>
  The body the JavaScript of a request primitive sends for the body copy \<open>pb\<close> and the
  length \<open>bl\<close>: \<^verbatim>\<open>if (bodyPtr && bodyLen > 0)\<close> the first \<^verbatim>\<open>bodyLen\<close> bytes, where \<^verbatim>\<open>bodyLen\<close>
  is \<^verbatim>\<open>(int)body_len\<close>, and \<^verbatim>\<open>null\<close> otherwise.
\<close>

definition js_sent_body :: "string option \<Rightarrow> nat \<Rightarrow> string option" where
  "js_sent_body pb bl =
     (case pb of
        None \<Rightarrow> None
      | Some bs \<Rightarrow> if 0 < int_cast bl then Some (take (nat (int_cast bl)) bs) else None)"

definition body_in_range :: "string option \<Rightarrow> nat \<Rightarrow> bool" where
  "body_in_range bd bl = (case bd of None \<Rightarrow> True | Some src \<Rightarrow> bl \<le> length src)"

definition call_heap ::
  "(addr \<Rightarrow> block option) \<Rightarrow> addr \<Rightarrow> HTTPHeaders \<Rightarrow> string option \<Rightarrow> (addr \<Rightarrow> block option)" where
  "call_heap H a hs pb =
     (case pb of
        None \<Rightarrow> marshalled H a (flat hs)
      | Some bs \<Rightarrow> (marshalled H a (flat hs))(Suc a + length (flat hs) \<mapsto> Chars bs))"

definition payload_ptr :: "addr \<Rightarrow> HTTPHeaders \<Rightarrow> string option \<Rightarrow> addr option" where
  "payload_ptr a hs pb = (case pb of None \<Rightarrow> None | Some bs \<Rightarrow> Some (Suc a + length (flat hs)))"

definition after_marshal :: "addr \<Rightarrow> HTTPHeaders \<Rightarrow> string option \<Rightarrow> addr" where
  "after_marshal a hs pb = Suc a + length (flat hs) + (case pb of None \<Rightarrow> 0 | Some bs \<Rightarrow> 1)"

text \<open>
  The events of a dispatch: allocations of the arguments, the host call, the allocation
  of the buffer it returns, the releases of the arguments, and after a buffer the events
  of its consumption and its release.
\<close>

definition marshal_events :: "addr \<Rightarrow> HTTPHeaders \<Rightarrow> string option \<Rightarrow> event list" where
  "marshal_events a hs pb =
     map Malloc (upfrom a (Suc (length (flat hs))))
     @ (case pb of None \<Rightarrow> [] | Some bs \<Rightarrow> [Malloc (Suc a + length (flat hs))])"

definition release_events :: "addr \<Rightarrow> HTTPHeaders \<Rightarrow> string option \<Rightarrow> event list" where
  "release_events a hs pb =
     map Free (upfrom (Suc a) (length (flat hs))) @ [Free a]
     @ (case pb of None \<Rightarrow> [] | Some bs \<Rightarrow> [Free (Suc a + length (flat hs))])"

text \<open>
  The primitive the client's mode selects and what it returns at the call
  (lines 256 to 262 of the source, on the heap of the call).
\<close>

definition request_primitive :: "client \<Rightarrow> primitive" where
  "request_primitive cl = (if use_sync_xhr cl then SyncRequest else AsyncRequest)"

definition request_reply ::
  "host \<Rightarrow> client \<Rightarrow> string \<Rightarrow> string \<Rightarrow> HTTPHeaders \<Rightarrow> string option \<Rightarrow> nat
   \<Rightarrow> (addr \<Rightarrow> block option) \<Rightarrow> addr \<Rightarrow> fault + string option" where
  "request_reply hst cl m u hs pb bl H a =
     (let path = c_str (NormalizeUrl (host_port cl) u) in
      if use_sync_xhr cl
      then sync_request_js (browser hst) (call_heap H a hs pb) path (c_str m) (length hs) a
             (payload_ptr a hs pb) (int_cast bl)
      else async_request_js hst (call_heap H a hs pb) path (c_str m) (length hs) a
             (payload_ptr a hs pb) (int_cast bl))"

definition request_events ::
  "primitive \<Rightarrow> addr \<Rightarrow> HTTPHeaders \<Rightarrow> string option \<Rightarrow> string option \<Rightarrow> event list \<Rightarrow> event list" where
  "request_events prim a hs pb r tail_events =
     marshal_events a hs pb @ [HostCall prim r]
     @ (case r of None \<Rightarrow> [] | Some buf \<Rightarrow> [Malloc (after_marshal a hs pb)])
     @ release_events a hs pb
     @ (case r of None \<Rightarrow> [] | Some buf \<Rightarrow> tail_events @ [Free (after_marshal a hs pb)])"

definition not_found_response :: "string \<Rightarrow> HTTPResponse" where
  "not_found_response msg = (make_response NotFound_404)\<lparr>reason := msg\<rparr>"

definition freed_heap ::
  "(addr \<Rightarrow> block option) \<Rightarrow> addr \<Rightarrow> HTTPHeaders \<Rightarrow> string option \<Rightarrow> string option
   \<Rightarrow> (addr \<Rightarrow> block option)" where
  "freed_heap H a hs pb r =
     (\<lambda>x. if a \<le> x \<and> x < Suc a + length (flat hs) then None
          else if x = Suc a + length (flat hs) \<and> pb \<noteq> None then Some (Chars (the pb))
          else if x = after_marshal a hs pb \<and> r \<noteq> None then Some (Chars (the r))
          else H x)"

definition head_primitive :: "client \<Rightarrow> primitive" where
  "head_primitive cl = (if use_sync_xhr cl then SyncHead else AsyncHead)"

definition head_reply ::
  "host \<Rightarrow> client \<Rightarrow> string \<Rightarrow> HTTPHeaders \<Rightarrow> (addr \<Rightarrow> block option) \<Rightarrow> addr
   \<Rightarrow> fault + string option" where
  "head_reply hst cl u hs H a =
     (let path = c_str (NormalizeUrl (host_port cl) u) in
      if use_sync_xhr cl
      then sync_head_request_js (browser hst) (call_heap H a hs None) path (length hs) a
      else async_head_request_js hst (call_heap H a hs None) path (length hs) a)"

subsection \<open>Verbs, traces and a host for concrete runs\<close>

text \<open>
  What each verb passes to the dispatcher, observers of a trace, the contract of the
  wire format that section 4.4 puts on the host, and a host, client, request and world
  for concrete runs.
\<close>

definition verb_method :: "verb \<Rightarrow> string" where
  "verb_method v =
     (case v of GET \<Rightarrow> ''GET'' | HEAD \<Rightarrow> ''HEAD'' | POST \<Rightarrow> ''POST'' | PUT \<Rightarrow> ''PUT''
      | DELETE \<Rightarrow> ''DELETE'')"

definition verb_body :: "verb \<Rightarrow> request_info \<Rightarrow> string option" where
  "verb_body v info =
     (case v of POST \<Rightarrow> buffer_in info | PUT \<Rightarrow> buffer_in info | _ \<Rightarrow> None)"

definition verb_body_len :: "verb \<Rightarrow> request_info \<Rightarrow> nat" where
  "verb_body_len v info =
     (case v of POST \<Rightarrow> buffer_in_len info | PUT \<Rightarrow> buffer_in_len info | _ \<Rightarrow> 0)"

definition verb_payload :: "verb \<Rightarrow> request_info \<Rightarrow> string option" where
  "verb_payload v info = payload_bytes (verb_body v info) (verb_body_len v info)"

definition verb_primitive :: "client \<Rightarrow> verb \<Rightarrow> primitive" where
  "verb_primitive cl v = (case v of HEAD \<Rightarrow> head_primitive cl | _ \<Rightarrow> request_primitive cl)"

definition verb_reply ::
  "host \<Rightarrow> client \<Rightarrow> verb \<Rightarrow> request_info \<Rightarrow> (addr \<Rightarrow> block option) \<Rightarrow> addr
   \<Rightarrow> fault + string option" where
  "verb_reply hst cl v info H a =
     (case v of
        HEAD \<Rightarrow> head_reply hst cl (url info) (req_headers info) H a
      | _ \<Rightarrow> request_reply hst cl (verb_method v) (url info) (req_headers info)
               (verb_payload v info) (verb_body_len v info) H a)"

definition failure_reason :: "verb \<Rightarrow> string" where
  "failure_reason v =
     (case v of HEAD \<Rightarrow> ''HEAD request failed''
      | _ \<Rightarrow> ''Request failed - check console for errors'')"

definition success_response :: "verb \<Rightarrow> string \<Rightarrow> HTTPResponse" where
  "success_response v bytes =
     (case v of
        HEAD \<Rightarrow> (make_response OK_200)\<lparr>headers := parse_response_headers bytes\<rparr>
      | _ \<Rightarrow> (make_response OK_200)\<lparr>body := bytes\<rparr>)"

definition info_after :: "verb \<Rightarrow> request_info \<Rightarrow> string \<Rightarrow> request_info" where
  "info_after v info bytes =
     (case v of POST \<Rightarrow> info\<lparr>buffer_out := buffer_out info @ bytes\<rparr> | _ \<Rightarrow> info)"

definition handler_events :: "verb \<Rightarrow> request_info \<Rightarrow> string \<Rightarrow> event list" where
  "handler_events v info bytes =
     (case v of GET \<Rightarrow> if content_handler info then [ContentHandler bytes] else []
      | _ \<Rightarrow> [])"

definition verb_outcome ::
  "client \<Rightarrow> verb \<Rightarrow> request_info \<Rightarrow> (addr \<Rightarrow> block option) \<Rightarrow> addr \<Rightarrow> event list
   \<Rightarrow> string option \<Rightarrow> fault + (HTTPResponse \<times> request_info \<times> world)" where
  "verb_outcome cl v info H a T r =
     (case r of
        None \<Rightarrow>
          Inr (not_found_response (failure_reason v), info,
               \<lparr>heap = clear H a (after_marshal a (req_headers info) (verb_payload v info)),
                next_addr = after_marshal a (req_headers info) (verb_payload v info),
                trace = T @ request_events (verb_primitive cl v) a (req_headers info)
                              (verb_payload v info) None []\<rparr>)
      | Some buf \<Rightarrow>
          (case decode_wire buf of
             Inl f \<Rightarrow> Inl f
           | Inr bytes \<Rightarrow>
               Inr (success_response v bytes, info_after v info bytes,
                    \<lparr>heap = clear H a
                              (Suc (after_marshal a (req_headers info) (verb_payload v info))),
                     next_addr = Suc (after_marshal a (req_headers info) (verb_payload v info)),
                     trace = T @ request_events (verb_primitive cl v) a (req_headers info)
                                   (verb_payload v info) (Some buf)
                                   (handler_events v info bytes)\<rparr>)))"

text \<open>
  Observers of a trace: the events a run adds, the addresses allocated and freed, the
  host calls with what they returned, the calls of the content handler, the number of
  probes, and the events before and after the host call.
\<close>

definition new_events :: "world \<Rightarrow> world \<Rightarrow> event list" where
  "new_events w w' = drop (length (trace w)) (trace w')"

fun mallocs :: "event list \<Rightarrow> addr list" where
  "mallocs [] = []"
| "mallocs (Malloc a # es) = a # mallocs es"
| "mallocs (e # es) = mallocs es"

fun frees :: "event list \<Rightarrow> addr list" where
  "frees [] = []"
| "frees (Free a # es) = a # frees es"
| "frees (e # es) = frees es"

fun host_calls :: "event list \<Rightarrow> (primitive \<times> string option) list" where
  "host_calls [] = []"
| "host_calls (HostCall p r # es) = (p, r) # host_calls es"
| "host_calls (e # es) = host_calls es"

fun handler_calls :: "event list \<Rightarrow> string list" where
  "handler_calls [] = []"
| "handler_calls (ContentHandler b # es) = b # handler_calls es"
| "handler_calls (e # es) = handler_calls es"

fun probes :: "event list \<Rightarrow> nat" where
  "probes [] = 0"
| "probes (Probe # es) = Suc (probes es)"
| "probes (e # es) = probes es"

fun is_host_call :: "event \<Rightarrow> bool" where
  "is_host_call (HostCall p r) = True"
| "is_host_call e = False"

definition before_call :: "event list \<Rightarrow> event list" where
  "before_call es = takeWhile (\<lambda>e. \<not> is_host_call e) es"

definition after_call :: "event list \<Rightarrow> event list" where
  "after_call es = drop 1 (dropWhile (\<lambda>e. \<not> is_host_call e) es)"

definition verb_tail :: "verb \<Rightarrow> request_info \<Rightarrow> string option \<Rightarrow> event list" where
  "verb_tail v info r =
     (case r of
        None \<Rightarrow> []
      | Some buf \<Rightarrow>
          (case decode_wire buf of Inl f \<Rightarrow> [] | Inr bytes \<Rightarrow> handler_events v info bytes))"

text \<open>
  The contract of section 4.4 on a buffer the host returns: four bytes of length and at
  least that many bytes behind them. The synchronous primitives meet it by their code;
  for the asynchronous ones it is a requirement on the host. A host honours the contract
  when every buffer it returns meets it and no exception leaves a primitive.
\<close>

definition wire_ok :: "string \<Rightarrow> bool" where
  "wire_ok buf = (4 \<le> length buf \<and> 4 + unat (read_length buf) \<le> length buf)"

definition honours_wire_contract :: "host \<Rightarrow> bool" where
  "honours_wire_contract hst =
     ((\<forall>m u hs b buf. async_request hst m u hs b = Some buf \<longrightarrow> wire_ok buf)
      \<and> (\<forall>u hs buf. async_head_request hst u hs = Some buf \<longrightarrow> wire_ok buf)
      \<and> (\<forall>m u. \<not> xhr_open_throws (browser hst) m u)
      \<and> \<not> xhr_responseType_throws (browser hst))"

text \<open>
  A host for concrete runs: no \<^verbatim>\<open>XMLHttpRequest\<close>, asynchronous primitives that return a
  given buffer or null.
\<close>

definition test_browser :: browser where
  "test_browser =
     \<lparr>XMLHttpRequest_defined = False, xhr_open_throws = (\<lambda>m u. False),
      xhr_responseType_throws = False, xhr_send = (\<lambda>m u hs b. SendThrows)\<rparr>"

definition test_host :: "string option \<Rightarrow> host" where
  "test_host reply =
     \<lparr>has_xhr = 0, browser = test_browser,
      async_request = (\<lambda>m u hs b. reply),
      async_head_request = (\<lambda>u hs. reply)\<rparr>"



definition echo_browser :: browser where
  "echo_browser =
     \<lparr>XMLHttpRequest_defined = True, xhr_open_throws = (\<lambda>m u. False),
      xhr_responseType_throws = False,
      xhr_send = (\<lambda>m u hs b. Completed 200 (encode_as_text hs) (encode_as_text hs))\<rparr>"

definition echo_host :: host where
  "echo_host =
     \<lparr>has_xhr = 1, browser = echo_browser,
      async_request = (\<lambda>m u hs b. Some (encode_wire (encode_as_text hs))),
      async_head_request = (\<lambda>u hs. Some (encode_wire (encode_as_text hs)))\<rparr>"

definition sync_client :: client where
  "sync_client = \<lparr>host_port = ''https://h'', use_sync_xhr = True\<rparr>"

definition test_client :: client where
  "test_client = \<lparr>host_port = ''https://h'', use_sync_xhr = False\<rparr>"

definition test_info :: request_info where
  "test_info =
     \<lparr>url = ''/foo'', req_headers = [(''Host'', ''example.com''), (''User-Agent'', ''x'')],
      buffer_in = Some ''abc'', buffer_in_len = 3, buffer_out = ''out'',
      content_handler = True\<rparr>"

definition empty_world :: world where
  "empty_world = \<lparr>heap = (\<lambda>a. None), next_addr = 1, trace = []\<rparr>"

subsection \<open>Buffers and modes for the statements\<close>

text \<open>
  The buffer of the example of section 8, its length prefix written both ways, and the
  primitive a mode selects for a verb.
\<close>

definition big_endian_hello :: string where
  "big_endian_hello = [CHR 0x00, CHR 0x00, CHR 0x00, CHR 0x05] @ ''hello''"

definition little_endian_hello :: string where
  "little_endian_hello = [CHR 0x05, CHR 0x00, CHR 0x00, CHR 0x00] @ ''hello''"

text \<open>
  What the host answers to the request of a verb, for the url, the headers installed on
  the request object and the body sent: in synchronous mode the result of the exchange
  the browser makes of them (null when \<^verbatim>\<open>XMLHttpRequest\<close> is not defined: the primitive
  returns before it makes a request object), in asynchronous mode what the host returns
  for them.
\<close>

definition host_answer ::
  "host \<Rightarrow> client \<Rightarrow> verb \<Rightarrow> string \<Rightarrow> (string \<times> string) list \<Rightarrow> string option
   \<Rightarrow> string option" where
  "host_answer hst cl v u installed bodyData =
     (if use_sync_xhr cl then
        (if \<not> XMLHttpRequest_defined (browser hst) then None
         else if v = HEAD then xhr_head_request (browser hst) u installed
         else xhr_request (browser hst) (verb_method v) u installed bodyData)
      else if v = HEAD then async_head_request hst u installed
      else async_request hst (verb_method v) u installed bodyData)"

definition mode_primitive :: "bool \<Rightarrow> verb \<Rightarrow> primitive" where
  "mode_primitive sync v =
     (if sync then (if v = HEAD then SyncHead else SyncRequest)
      else (if v = HEAD then AsyncHead else AsyncRequest))"

section \<open>The Arrow IPC ingestion helper of src/arrow/arrow\_ipc\_insert.cpp\<close>

text \<open>
  nanoarrow and the engine's C API are outside the program: the record \<open>arrow_library\<close>
  holds what their calls answer (whether a return code is \<^verbatim>\<open>NANOARROW_OK\<close>, whether a
  release callback is set, the state a scan or a query returns), and every call the
  helper makes is recorded, in order. A null pointer argument is \<open>None\<close>.
\<close>

datatype duckdb_state = DuckDBSuccess | DuckDBError

datatype library_call =
  ArrowBufferInit | ArrowBufferDeallocator | ArrowIpcInputStreamInitBuffer string nat
  | ArrowBufferReset | ArrowIpcArrayStreamReaderInit | InputRelease
  | DuckdbArrowScan nat string | DuckdbQuery nat string | DuckdbDestroyResult
  | StreamRelease

record arrow_library =
  input_stream_init_ok :: bool
  input_release_set :: bool
  reader_init_ok :: bool
  arrow_scan_state :: duckdb_state
  stream_release_set_after_scan :: bool
  query_state :: "string \<Rightarrow> duckdb_state"
  stream_release_set_at_end :: bool

definition view_name :: string where
  "view_name = ''__ducklings_arrow_tmp''"

definition duckdb_wasm_insert_arrow_ipc ::
  "arrow_library \<Rightarrow> nat option \<Rightarrow> string option \<Rightarrow> string option \<Rightarrow> nat
   \<Rightarrow> library_call list \<Rightarrow> duckdb_state \<times> library_call list" where
  "duckdb_wasm_insert_arrow_ipc lib connection table_name ipc_buffer buffer_length calls =
     (case (connection, table_name, ipc_buffer) of
        (Some conn, Some tname, Some bytes) \<Rightarrow>
          if buffer_length = 0 then (DuckDBError, calls)
          else
            (let calls = calls @ [ArrowBufferInit, ArrowBufferDeallocator,
                                  ArrowIpcInputStreamInitBuffer bytes buffer_length] in
             if \<not> input_stream_init_ok lib then (DuckDBError, calls @ [ArrowBufferReset])
             else
               (let calls = calls @ [ArrowIpcArrayStreamReaderInit] in
                if \<not> reader_init_ok lib
                then (DuckDBError,
                      calls @ (if input_release_set lib then [InputRelease] else []))
                else
                  (let calls = calls @ [DuckdbArrowScan conn view_name] in
                   if arrow_scan_state lib \<noteq> DuckDBSuccess
                   then (DuckDBError,
                         calls @ (if stream_release_set_after_scan lib
                                  then [StreamRelease] else []))
                   else
                     (let create_sql = ''CREATE TABLE IF NOT EXISTS '' @ [CHR 0x22] @ tname
                            @ [CHR 0x22] @ '' AS SELECT * FROM '' @ [CHR 0x22] @ view_name
                            @ [CHR 0x22];
                          state = query_state lib create_sql;
                          calls = calls @ [DuckdbQuery conn create_sql, DuckdbDestroyResult];
                          drop_sql = ''DROP VIEW IF EXISTS '' @ [CHR 0x22]
                            @ ''__ducklings_arrow_tmp'' @ [CHR 0x22];
                          calls = calls @ [DuckdbQuery conn drop_sql, DuckdbDestroyResult];
                          calls = calls @ (if stream_release_set_at_end lib
                                           then [StreamRelease] else [])
                      in (state, calls)))))
      | _ \<Rightarrow> (DuckDBError, calls))"

definition test_library :: arrow_library where
  "test_library =
     \<lparr>input_stream_init_ok = True, input_release_set = True, reader_init_ok = True,
      arrow_scan_state = DuckDBSuccess, stream_release_set_after_scan = True,
      query_state = (\<lambda>sql. DuckDBSuccess), stream_release_set_at_end = True\<rparr>"

section \<open>Theorems\<close>

subsection \<open>URL normalisation\<close>

lemma begins_with_prefix: "begins_with p s = prefix p s"
proof
  assume "begins_with p s"
  then have "s = p @ drop (length p) s"
    by (metis append_take_drop_id begins_with_def)
  then show "prefix p s"
    by (metis prefixI)
next
  assume "prefix p s"
  then show "begins_with p s"
    by (auto simp: begins_with_def prefix_def)
qed

lemma prefix_slash: "prefix ''/'' s = (first_char s = CHR ''/'')"
  by (cases s) (auto simp: first_char_def)

text \<open>
  C4. URL normalisation does what section 4.2 says (prepend the origin to a url that
  begins with a slash, then prepend \<open>https://\<close> unless the result begins with
  \<open>http://\<close> or \<open>https://\<close>), it is a total function, and the three examples of
  section 8 evaluate as stated.
\<close>

theorem NormalizeUrl_spec:
  "NormalizeUrl origin u = normalize_spec u origin
   \<and> NormalizeUrl ''https://h'' ''/foo'' = ''https://h/foo''
   \<and> NormalizeUrl ''https://h'' ''h/foo'' = ''https://h/foo''
   \<and> NormalizeUrl ''https://h'' ''http://x/y'' = ''http://x/y''"
proof -
  have "NormalizeUrl origin u = normalize_spec u origin"
    by (simp add: NormalizeUrl_def normalize_spec_def Let_def begins_with_prefix
        prefix_slash)
  moreover have "NormalizeUrl ''https://h'' ''/foo'' = ''https://h/foo''"
    by (simp add: NormalizeUrl_def first_char_def)
  moreover have "NormalizeUrl ''https://h'' ''h/foo'' = ''https://h/foo''"
    by (simp add: NormalizeUrl_def first_char_def)
  moreover have "NormalizeUrl ''https://h'' ''http://x/y'' = ''http://x/y''"
    by (simp add: NormalizeUrl_def first_char_def)
  ultimately show ?thesis by simp
qed

subsection \<open>The wire buffer\<close>

lemma of_char_heapu8_store: "(of_char (heapu8_store x) :: 32 word) = take_bit 8 x"
proof -
  have "(of_char (heapu8_store x) :: 32 word)
        = word_of_nat (of_char (char_of (unat x)) :: nat)"
    unfolding heapu8_store_def by (rule of_nat_of_char [symmetric])
  also have "\<dots> = word_of_nat (unat x mod 256)" by simp
  also have "\<dots> = take_bit 8 x"
    by (simp add: take_bit_eq_mod word_arith_nat_mod)
  finally show ?thesis .
qed

lemma mask_255: "(0xFF :: 32 word) = mask 8"
  by (simp add: mask_eq_exp_minus_1)

lemma js_shift_byte:
  fixes w :: "32 word"
  assumes "k \<le> 24"
  shows "take_bit 8 (signed_drop_bit k w AND 0xFF) = take_bit 8 (drop_bit k w)"
  unfolding mask_255 using assms
  by (intro bit_word_eqI) (auto simp add: bit_simps)

lemma four_bytes_recombine:
  fixes w :: "32 word"
  shows "(((0 OR take_bit 8 w) OR push_bit 8 (take_bit 8 (drop_bit 8 w)))
          OR push_bit 16 (take_bit 8 (drop_bit 16 w)))
          OR push_bit 24 (take_bit 8 (drop_bit 24 w)) = w"
proof (rule bit_word_eqI)
  fix n assume n: "n < LENGTH(32)"
  consider "n < 8" | "8 \<le> n" "n < 16" | "16 \<le> n" "n < 24" | "24 \<le> n" "n < 32"
    using n by fastforce
  then show "bit ((((0 OR take_bit 8 w) OR push_bit 8 (take_bit 8 (drop_bit 8 w)))
          OR push_bit 16 (take_bit 8 (drop_bit 16 w)))
          OR push_bit 24 (take_bit 8 (drop_bit 24 w))) n = bit w n"
    by cases (auto simp add: bit_simps)
qed

lemma read_length_encode_wire: "read_length (encode_wire B) = js_ToInt32 (length B)"
proof -
  let ?w = "js_ToInt32 (length B)"
  have "read_length (encode_wire B)
        = (((0 OR take_bit 8 (?w AND 0xFF))
            OR push_bit 8 (take_bit 8 (signed_drop_bit 8 ?w AND 0xFF)))
            OR push_bit 16 (take_bit 8 (signed_drop_bit 16 ?w AND 0xFF)))
            OR push_bit 24 (take_bit 8 (signed_drop_bit 24 ?w AND 0xFF))"
    by (simp only: read_length_def encode_wire_def Let_def of_char_heapu8_store append_Cons
        nth_Cons_0 nth_Cons_Suc One_nat_def numeral_2_eq_2 numeral_3_eq_3)
  also have "\<dots> = ?w"
    using js_shift_byte[of 0 ?w] js_shift_byte[of 8 ?w] js_shift_byte[of 16 ?w]
      js_shift_byte[of 24 ?w] four_bytes_recombine[of ?w]
    by (simp only: signed_drop_bit_0 drop_bit_0 le0) simp
  finally show ?thesis .
qed

lemma length_encode_wire: "length (encode_wire B) = 4 + length B"
  by (simp add: encode_wire_def Let_def)

lemma drop_4_encode_wire: "drop 4 (encode_wire B) = B"
  by (simp add: encode_wire_def Let_def)

lemma decode_encode_wire:
  assumes "length B < 2 ^ 32"
  shows "decode_wire (encode_wire B) = Inr B"
proof -
  have "unat (read_length (encode_wire B)) = length B"
    using assms by (simp add: read_length_encode_wire js_ToInt32_def unat_of_nat)
  then show ?thesis
    by (simp add: decode_wire_def Let_def length_encode_wire drop_4_encode_wire)
qed

text \<open>
  C2. For every byte sequence \<open>B\<close> of length below \<open>2 ^ 32\<close>, decoding the buffer the
  host-side encoding makes of \<open>B\<close> (four length bytes, least significant first, then the
  bytes of \<open>B\<close>) gives back exactly \<open>B\<close>.
\<close>

theorem decode_wire_encode_wire:
  assumes "length B < 2 ^ 32"
  shows "decode_wire (encode_wire B) = Inr B"
  using assms by (rule decode_encode_wire)

theorem decode_wire_encode_wire_witness:
  "length ''hello'' < (2::nat) ^ 32 \<and> decode_wire (encode_wire ''hello'') = Inr ''hello''"
  using decode_wire_encode_wire [of "''hello''"] by simp

subsection \<open>The response header block\<close>

lemma trim_leading_spaces_dropWhile:
  "trim_leading_spaces s = dropWhile (\<lambda>c. c = CHR '' '') s"
  by (induction s) auto

lemma drop_Suc_takeWhile:
  "c \<in> set s \<Longrightarrow> drop (Suc (length (takeWhile (\<lambda>x. x \<noteq> c) s))) s = tl (dropWhile (\<lambda>x. x \<noteq> c) s)"
  by (induction s) auto

lemma parse_header_lines_spec:
  "parse_header_lines ls hs = hs @ List.map_filter decode_line_spec ls"
proof (induction ls arbitrary: hs)
  case Nil
  then show ?case by simp
next
  case (Cons l ls)
  show ?case
  proof (cases "CHR '':'' \<in> set l")
    case True
    then show ?thesis
      using Cons.IH
      by (simp add: find_char_def decode_line_spec_def Insert_def
          trim_leading_spaces_dropWhile drop_Suc_takeWhile takeWhile_eq_take [symmetric])
  next
    case False
    then show ?thesis
      using Cons.IH
      by (simp add: find_char_def decode_line_spec_def)
  qed
qed

lemma Split_from_line:
  assumes "CHR 0x0A \<notin> set l"
  shows "Split_from [CHR 0x0D, CHR 0x0A] cur (l @ [CHR 0x0D, CHR 0x0A] @ rest)
         = (cur @ l) # Split_from [CHR 0x0D, CHR 0x0A] [] rest"
  using assms
proof (induction l arbitrary: cur)
  case Nil
  then show ?case by simp
next
  case (Cons c l)
  have "\<not> prefix [CHR 0x0D, CHR 0x0A] (c # l @ [CHR 0x0D, CHR 0x0A] @ rest)"
    using Cons.prems by (cases l) auto
  then show ?case
    using Cons by simp
qed

lemma Split_from_encode_as_text:
  assumes "\<forall>nv\<in>set H. well_formed_header nv"
  shows "Split_from [CHR 0x0D, CHR 0x0A] [] (encode_as_text H)
         = map (\<lambda>(n, v). n @ '': '' @ v) H @ [[]]"
  using assms
proof (induction H)
  case Nil
  then show ?case by (simp add: encode_as_text_def)
next
  case (Cons nv H)
  obtain n v where nv: "nv = (n, v)" by (cases nv)
  have "CHR 0x0A \<notin> set (n @ '': '' @ v)"
    using Cons.prems nv by (auto simp: well_formed_header_def)
  from Split_from_line [OF this, of "[]" "encode_as_text H"]
  show ?case
    using Cons nv by (simp add: encode_as_text_def)
qed

lemma decode_line_spec_well_formed:
  assumes "well_formed_header (n, v)"
  shows "decode_line_spec (n @ '': '' @ v) = Some (n, dropWhile (\<lambda>c. c = CHR '' '') v)"
proof -
  have n: "CHR '':'' \<notin> set n" using assms by (simp add: well_formed_header_def)
  then have "takeWhile (\<lambda>c. c \<noteq> CHR '':'') (n @ '': '' @ v) = n"
    by (induction n) auto
  moreover have "dropWhile (\<lambda>c. c \<noteq> CHR '':'') (n @ '': '' @ v) = '': '' @ v"
    using n by (induction n) auto
  ultimately show ?thesis
    by (simp add: decode_line_spec_def)
qed

lemma map_filter_decode_lines:
  assumes "\<forall>nv\<in>set H. well_formed_header nv"
  shows "List.map_filter decode_line_spec (map (\<lambda>(n, v). n @ '': '' @ v) H @ [[]])
         = map (\<lambda>(n, v). (n, dropWhile (\<lambda>c. c = CHR '' '') v)) H"
  using assms
proof (induction H)
  case Nil
  then show ?case by (simp add: decode_line_spec_def)
next
  case (Cons nv H)
  obtain n v where nv: "nv = (n, v)" by (cases nv)
  then show ?case
    using Cons decode_line_spec_well_formed [of n v]
    by simp
qed

text \<open>
  C5. The decoder of a response header block splits the block on CR LF, splits each line
  at its first colon, trims the leading spaces of the value and skips a line with no
  colon; it is a total function. For every header set whose names hold no colon and no
  line feed and whose values hold no line feed, decoding its rendering as
  \<^verbatim>\<open>Name: Value\r\n\<close> lines gives back the same pairs, the values without their leading
  spaces.
\<close>

theorem parse_response_headers_roundtrip:
  "parse_response_headers blk
     = List.map_filter decode_line_spec (Split blk [CHR 0x0D, CHR 0x0A])
   \<and> ((\<forall>nv\<in>set H. well_formed_header nv) \<longrightarrow>
        parse_response_headers (encode_as_text H)
          = map (\<lambda>(n, v). (n, dropWhile (\<lambda>c. c = CHR '' '') v)) H)"
proof (intro conjI impI)
  show "parse_response_headers blk
          = List.map_filter decode_line_spec (Split blk [CHR 0x0D, CHR 0x0A])"
    by (simp add: parse_response_headers_def parse_header_lines_spec)
next
  assume wf: "\<forall>nv\<in>set H. well_formed_header nv"
  have "parse_response_headers (encode_as_text H)
          = List.map_filter decode_line_spec (map (\<lambda>(n, v). n @ '': '' @ v) H @ [[]])"
    by (simp only: parse_response_headers_def parse_header_lines_spec Split_def Let_def
        Split_from_encode_as_text [OF wf] append_Nil)
  then show "parse_response_headers (encode_as_text H)
          = map (\<lambda>(n, v). (n, dropWhile (\<lambda>c. c = CHR '' '') v)) H"
    by (simp only: map_filter_decode_lines [OF wf])
qed

theorem parse_response_headers_roundtrip_witness:
  "(well_formed_header (''Content-Length'', ''42'') \<and> well_formed_header (''ETag'', ''  x:y''))
   \<and> parse_response_headers (encode_as_text [(''Content-Length'', ''42''), (''ETag'', ''  x:y'')])
      = [(''Content-Length'', ''42''), (''ETag'', ''x:y'')]
   \<and> parse_response_headers ''no colon here'' = []"
  using parse_response_headers_roundtrip
    [of "''no colon here''" "[(''Content-Length'', ''42''), (''ETag'', ''  x:y'')]"]
  by (simp add: well_formed_header_def Split_def decode_line_spec_def)

subsection \<open>Marshaling, release and the dispatch step by step\<close>

lemma memcpy_c_str:
  "memcpy (memset_zero (fresh_chars (length s + 1)) (length s + 1)) (c_str s) (length s) = c_str s"
proof -
  have "drop n (x # replicate n x) = [x]" for n and x :: char
    by (induction n) simp_all
  then show ?thesis
    by (simp add: memcpy_def memset_zero_def fresh_chars_def c_str_def)
qed

lemma copy_string_eq:
  "copy_string s \<lparr>heap = H, next_addr = a, trace = T\<rparr> =
     (a, \<lparr>heap = H(a \<mapsto> Chars (c_str s)), next_addr = Suc a, trace = T @ [Malloc a]\<rparr>)"
  using memcpy_c_str [of s] by (simp add: copy_string_def malloc_def)

lemma length_flat: "length (flat hs) = 2 * length hs"
  by (induction hs) (auto simp: flat_def)

lemma flat_Cons: "flat ((n, v) # hs) = n # v # flat hs"
  by (simp add: flat_def)

lemma upfrom_upt: "upfrom a k = [a..<a + k]"
  by (induction k arbitrary: a) (simp_all add: upt_conv_Cons)

lemma length_upfrom: "length (upfrom a k) = k"
  by (induction k arbitrary: a) simp_all

lemma take_two_updates:
  assumes "Suc i < length ps"
  shows "take (Suc (Suc i)) (ps[i := x, Suc i := y]) = take i ps @ [x, y]"
  using assms by (simp add: take_Suc_conv_app_nth nth_list_update)

lemma PrepareHeaders_loop_step:
  assumes "H z = Some (Ptrs ps)" "Suc i < length ps" "z < a"
  shows "PrepareHeaders_loop z ((n, v) # hs) i \<lparr>heap = H, next_addr = a, trace = T\<rparr> =
         PrepareHeaders_loop z hs (Suc (Suc i))
           \<lparr>heap = H(a \<mapsto> Chars (c_str n), Suc a \<mapsto> Chars (c_str v),
                     z \<mapsto> Ptrs (ps[i := a, Suc i := Suc a])),
            next_addr = Suc (Suc a), trace = T @ [Malloc a, Malloc (Suc a)]\<rparr>"
proof -
  have "H(a \<mapsto> Chars (c_str n), z \<mapsto> Ptrs (ps[i := a]), Suc a \<mapsto> Chars (c_str v),
          z \<mapsto> Ptrs (ps[i := a, Suc i := Suc a]))
        = H(a \<mapsto> Chars (c_str n), Suc a \<mapsto> Chars (c_str v),
            z \<mapsto> Ptrs (ps[i := a, Suc i := Suc a]))"
    using assms by (auto simp: fun_eq_iff)
  then show ?thesis
    using assms by (simp add: copy_string_eq poke_ptr_def)
qed

lemma filled_Cons:
  assumes "Suc i + length fs < length ps" "z < a"
  shows "filled (H(a \<mapsto> Chars (c_str n), Suc a \<mapsto> Chars (c_str v),
                     z \<mapsto> Ptrs (ps[i := a, Suc i := Suc a])))
           z (ps[i := a, Suc i := Suc a]) (Suc (Suc i)) (Suc (Suc a)) fs
         = filled H z ps i a (n # v # fs)"
proof
  fix x
  have lst: "take (Suc (Suc i)) (ps[i := a, Suc i := Suc a])
               @ upfrom (Suc (Suc a)) (length fs)
               @ drop (Suc (Suc i) + length fs) (ps[i := a, Suc i := Suc a])
             = take i ps @ upfrom a (length (n # v # fs))
               @ drop (i + length (n # v # fs)) ps"
    using assms by (simp add: take_two_updates)
  consider "x = z" | "x \<noteq> z" "x = a" | "x \<noteq> z" "x = Suc a"
    | "x \<noteq> z" "Suc (Suc a) \<le> x" | "x \<noteq> z" "x < a"
    by linarith
  then show "filled (H(a \<mapsto> Chars (c_str n), Suc a \<mapsto> Chars (c_str v),
                     z \<mapsto> Ptrs (ps[i := a, Suc i := Suc a])))
           z (ps[i := a, Suc i := Suc a]) (Suc (Suc i)) (Suc (Suc a)) fs x
         = filled H z ps i a (n # v # fs) x"
  proof cases
    case 1
    then show ?thesis using lst by (simp add: filled_def)
  next
    case 2
    then show ?thesis by (simp add: filled_def)
  next
    case 3
    then show ?thesis by (simp add: filled_def)
  next
    case 4
    then have "x - a = Suc (Suc (x - Suc (Suc a)))" by simp
    with 4 show ?thesis by (auto simp add: filled_def)
  next
    case 5
    then show ?thesis by (simp add: filled_def)
  qed
qed

lemma PrepareHeaders_loop_eq:
  assumes "H z = Some (Ptrs ps)" "i + length (flat hs) \<le> length ps" "z < a"
  shows "PrepareHeaders_loop z hs i \<lparr>heap = H, next_addr = a, trace = T\<rparr> =
     Inr \<lparr>heap = filled H z ps i a (flat hs), next_addr = a + length (flat hs),
          trace = T @ map Malloc (upfrom a (length (flat hs)))\<rparr>"
  using assms
proof (induction hs arbitrary: i H a T ps)
  case Nil
  have "filled H z ps i a [] = H"
    using Nil.prems by (auto simp: filled_def fun_eq_iff)
  then show ?case by (simp add: flat_def)
next
  case (Cons h hs)
  obtain n v where h: "h = (n, v)" by (cases h)
  let ?ps = "ps[i := a, Suc i := Suc a]"
  let ?H = "H(a \<mapsto> Chars (c_str n), Suc a \<mapsto> Chars (c_str v), z \<mapsto> Ptrs ?ps)"
  have len: "Suc i + length (flat hs) < length ps"
    using Cons.prems h by (simp add: flat_Cons)
  have "PrepareHeaders_loop z (h # hs) i \<lparr>heap = H, next_addr = a, trace = T\<rparr>
        = PrepareHeaders_loop z hs (Suc (Suc i))
            \<lparr>heap = ?H, next_addr = Suc (Suc a), trace = T @ [Malloc a, Malloc (Suc a)]\<rparr>"
    unfolding h using Cons.prems len by (intro PrepareHeaders_loop_step) auto
  also have "\<dots> = Inr \<lparr>heap = filled ?H z ?ps (Suc (Suc i)) (Suc (Suc a)) (flat hs),
                        next_addr = Suc (Suc a) + length (flat hs),
                        trace = (T @ [Malloc a, Malloc (Suc a)])
                                @ map Malloc (upfrom (Suc (Suc a)) (length (flat hs)))\<rparr>"
    using Cons.prems len by (intro Cons.IH) auto
  also have "\<dots> = Inr \<lparr>heap = filled H z ps i a (flat (h # hs)),
          next_addr = a + length (flat (h # hs)),
          trace = T @ map Malloc (upfrom a (length (flat (h # hs))))\<rparr>"
    unfolding h using filled_Cons [OF len Cons.prems(3), of H n v]
    by (simp add: flat_Cons)
  finally show ?case .
qed

lemma set_upfrom: "set (upfrom a k) = {a..<a + k}"
  by (simp add: upfrom_upt)

lemma nth_upfrom: "j < k \<Longrightarrow> upfrom a k ! j = a + j"
  by (simp add: upfrom_upt)

lemma PrepareHeaders_eq:
  "PrepareHeaders hs \<lparr>heap = H, next_addr = a, trace = T\<rparr> =
     Inr ((a, length hs),
          \<lparr>heap = marshalled H a (flat hs), next_addr = Suc a + length (flat hs),
           trace = T @ map Malloc (upfrom a (Suc (length (flat hs))))\<rparr>)"
proof -
  let ?ps = "fresh_ptrs (length hs * 2)"
  have len: "length ?ps = length (flat hs)"
    by (simp add: fresh_ptrs_def length_flat)
  have loop: "PrepareHeaders_loop a hs 0
          \<lparr>heap = H(a \<mapsto> Ptrs ?ps), next_addr = Suc a, trace = T @ [Malloc a]\<rparr>
        = Inr \<lparr>heap = filled (H(a \<mapsto> Ptrs ?ps)) a ?ps 0 (Suc a) (flat hs),
               next_addr = Suc a + length (flat hs),
               trace = (T @ [Malloc a]) @ map Malloc (upfrom (Suc a) (length (flat hs)))\<rparr>"
    by (rule PrepareHeaders_loop_eq) (simp_all add: len)
  have "filled (H(a \<mapsto> Ptrs ?ps)) a ?ps 0 (Suc a) (flat hs) = marshalled H a (flat hs)"
    using len by (auto simp: filled_def marshalled_def fun_eq_iff)
  with loop show ?thesis
    by (simp add: PrepareHeaders_def malloc_def)
qed

lemma FreeHeaders_loop_eq:
  assumes "H z = Some (Ptrs ps)" "\<forall>i\<in>set is. i < length ps" "z \<notin> set ps"
  shows "FreeHeaders_loop z is \<lparr>heap = H, next_addr = a, trace = T\<rparr> =
     Inr \<lparr>heap = (\<lambda>x. if x \<in> (\<lambda>i. ps ! i) ` set is then None else H x), next_addr = a,
          trace = T @ map (\<lambda>i. Free (ps ! i)) is\<rparr>"
  using assms
proof (induction "is" arbitrary: H T)
  case Nil
  then show ?case by simp
next
  case (Cons i "is")
  let ?H = "H(ps ! i := None)"
  have z: "?H z = Some (Ptrs ps)"
    using Cons.prems by (auto simp: fun_upd_def)
  have "FreeHeaders_loop z (i # is) \<lparr>heap = H, next_addr = a, trace = T\<rparr>
        = FreeHeaders_loop z is \<lparr>heap = ?H, next_addr = a, trace = T @ [Free (ps ! i)]\<rparr>"
    using Cons.prems by (simp add: peek_ptr_def free_def)
  also have "\<dots> = Inr \<lparr>heap = (\<lambda>x. if x \<in> (\<lambda>i. ps ! i) ` set is then None else ?H x),
                        next_addr = a,
                        trace = (T @ [Free (ps ! i)]) @ map (\<lambda>i. Free (ps ! i)) is\<rparr>"
    using Cons.prems z by (intro Cons.IH) auto
  also have "\<dots> = Inr \<lparr>heap = (\<lambda>x. if x \<in> (\<lambda>i. ps ! i) ` set (i # is) then None else H x),
                        next_addr = a, trace = T @ map (\<lambda>i. Free (ps ! i)) (i # is)\<rparr>"
    by (auto simp: fun_eq_iff)
  finally show ?case .
qed

lemma FreeHeaders_eq:
  assumes "H z = Some (Ptrs ps)" "length ps = count * 2" "z \<notin> set ps"
  shows "FreeHeaders z count \<lparr>heap = H, next_addr = a, trace = T\<rparr> =
     Inr \<lparr>heap = (\<lambda>x. if x = z \<or> x \<in> set ps then None else H x), next_addr = a,
          trace = T @ map Free ps @ [Free z]\<rparr>"
proof -
  have nth: "map (\<lambda>i. ps ! i) [0..<count * 2] = ps"
    using map_nth [of ps] assms(2) by simp
  have img: "(!) ps ` {0..<count * 2} = set ps"
    using arg_cong [OF nth, of set] by simp
  have mp: "map (\<lambda>i. Free (ps ! i)) [0..<count * 2] = map Free ps"
    using arg_cong [OF nth, of "map Free"] by (simp add: comp_def)
  have "FreeHeaders_loop z [0..<count * 2] \<lparr>heap = H, next_addr = a, trace = T\<rparr> =
     Inr \<lparr>heap = (\<lambda>x. if x \<in> (\<lambda>i. ps ! i) ` set [0..<count * 2] then None else H x),
          next_addr = a, trace = T @ map (\<lambda>i. Free (ps ! i)) [0..<count * 2]\<rparr>"
    using assms by (intro FreeHeaders_loop_eq) auto
  then show ?thesis
    by (simp add: FreeHeaders_def free_def img mp fun_eq_iff)
qed

lemma flat_nth:
  "k < length hs \<Longrightarrow> flat hs ! (2 * k) = fst (hs ! k) \<and> flat hs ! Suc (2 * k) = snd (hs ! k)"
proof (induction hs arbitrary: k)
  case Nil
  then show ?case by simp
next
  case (Cons h hs)
  obtain n v where h: "h = (n, v)" by (cases h)
  show ?case
  proof (cases k)
    case 0
    then show ?thesis by (simp add: h flat_Cons)
  next
    case (Suc k')
    then show ?thesis using Cons.IH [of k'] Cons.prems by (simp add: h flat_Cons)
  qed
qed

lemma js_string_c_str: "js_string (c_str s) = js_string s"
  by (induction s) (simp_all add: js_string_def c_str_def)

lemma UTF8ToString_c_str:
  "h p = Some (Chars (c_str s)) \<Longrightarrow> UTF8ToString h p = Some (js_string s)"
  by (simp add: UTF8ToString_def js_string_c_str) (simp add: c_str_def)

lemma js_header_at_eq:
  assumes "h z = Some (Ptrs ps)" "length ps = 2 * length hs"
    "\<forall>j<2 * length hs. h (ps ! j) = Some (Chars (c_str (flat hs ! j)))"
    "k < length hs"
  shows "js_header_at h z (2 * k)
         = Some (rename_reserved (js_string (fst (hs ! k))), js_string (snd (hs ! k)))"
proof -
  have p1: "peek_ptr h z (2 * k) = Some (ps ! (2 * k))"
    using assms by (simp add: peek_ptr_def)
  have p2: "peek_ptr h z (2 * k + 1) = Some (ps ! Suc (2 * k))"
    using assms by (simp add: peek_ptr_def)
  have s1: "UTF8ToString h (ps ! (2 * k)) = Some (js_string (fst (hs ! k)))"
    using assms flat_nth [of k hs] by (intro UTF8ToString_c_str) simp
  have s2: "UTF8ToString h (ps ! Suc (2 * k)) = Some (js_string (snd (hs ! k)))"
    using assms flat_nth [of k hs] by (intro UTF8ToString_c_str) simp
  show ?thesis
    by (simp only: js_header_at_def p1 p2 s1 s2 option.case)
qed

lemma js_header_loop_eq:
  assumes "h z = Some (Ptrs ps)" "length ps = 2 * length hs"
    "\<forall>j<2 * length hs. h (ps ! j) = Some (Chars (c_str (flat hs ! j)))"
    "\<forall>k\<in>set ks. k < length hs"
  shows "js_header_loop h z (map (\<lambda>k. 2 * k) ks)
         = Some (map (\<lambda>k. (rename_reserved (js_string (fst (hs ! k))),
                            js_string (snd (hs ! k)))) ks)"
  using assms(4)
proof (induction ks)
  case Nil
  then show ?case by simp
next
  case (Cons k ks)
  then show ?case
    using js_header_at_eq [OF assms(1-3), of k] by simp
qed

lemma js_set_request_headers_eq:
  assumes "h z = Some (Ptrs ps)" "length ps = 2 * length hs"
    "\<forall>j<2 * length hs. h (ps ! j) = Some (Chars (c_str (flat hs ! j)))"
  shows "js_set_request_headers h (length hs) z = Some (installed_headers hs)"
proof -
  have "map (\<lambda>k. (rename_reserved (js_string (fst (hs ! k))), js_string (snd (hs ! k))))
          [0..<length hs]
        = map (\<lambda>nv. (rename_reserved (js_string (fst nv)), js_string (snd nv))) hs"
    by (rule nth_equalityI) simp_all
  also have "\<dots> = installed_headers hs"
    by (simp add: installed_headers_def case_prod_unfold)
  finally show ?thesis
    using js_header_loop_eq [OF assms, of "[0..<length hs]"]
    by (simp add: js_set_request_headers_def)
qed

lemma copy_payload_eq:
  "copy_payload bd bl \<lparr>heap = marshalled H a (flat hs), next_addr = Suc a + length (flat hs),
                       trace = T @ map Malloc (upfrom a (Suc (length (flat hs))))\<rparr> =
     (if body_in_range bd bl
      then Inr (payload_ptr a hs (payload_bytes bd bl),
                \<lparr>heap = call_heap H a hs (payload_bytes bd bl),
                 next_addr = after_marshal a hs (payload_bytes bd bl),
                 trace = T @ marshal_events a hs (payload_bytes bd bl)\<rparr>)
      else Inl OutOfBounds)"
  by (auto simp: copy_payload_def body_in_range_def payload_bytes_def payload_ptr_def
      call_heap_def after_marshal_def marshal_events_def malloc_def memcpy_def fresh_chars_def
      split: option.splits)

lemma call_heap_array:
  "call_heap H a hs pb a = Some (Ptrs (upfrom (Suc a) (length (flat hs))))"
  by (simp add: call_heap_def marshalled_def split: option.splits)

lemma call_heap_string:
  "j < length (flat hs) \<Longrightarrow> call_heap H a hs pb (Suc a + j) = Some (Chars (c_str (flat hs ! j)))"
  by (simp add: call_heap_def marshalled_def split: option.splits)

lemma host_call_eq:
  "(if use_sync_xhr cl
    then em_sync_request (browser hst) (c_str (NormalizeUrl (host_port cl) u)) (c_str m)
           (length hs) a (payload_ptr a hs pb) (int_cast bl)
           \<lparr>heap = call_heap H a hs pb, next_addr = n, trace = T\<rparr>
    else em_async_request hst (c_str (NormalizeUrl (host_port cl) u)) (c_str m)
           (length hs) a (payload_ptr a hs pb) (int_cast bl)
           \<lparr>heap = call_heap H a hs pb, next_addr = n, trace = T\<rparr>)
   = (case request_reply hst cl m u hs pb bl H a of
        Inl f \<Rightarrow> Inl f
      | Inr r \<Rightarrow>
          Inr (case r of None \<Rightarrow> None | Some buf \<Rightarrow> Some n,
               \<lparr>heap = (case r of None \<Rightarrow> call_heap H a hs pb
                         | Some buf \<Rightarrow> (call_heap H a hs pb)(n \<mapsto> Chars buf)),
                next_addr = (case r of None \<Rightarrow> n | Some buf \<Rightarrow> Suc n),
                trace = T @ [HostCall (request_primitive cl) r]
                        @ (case r of None \<Rightarrow> [] | Some buf \<Rightarrow> [Malloc n])\<rparr>))"
  by (simp add: em_sync_request_def em_async_request_def request_reply_def host_return_def
      request_primitive_def log_event_def malloc_def split: sum.splits option.splits)

lemma FreeHeaders_call_heap:
  assumes "H' a = Some (Ptrs (upfrom (Suc a) (length (flat hs))))"
  shows "FreeHeaders a (length hs) \<lparr>heap = H', next_addr = n, trace = T\<rparr> =
     Inr \<lparr>heap = (\<lambda>x. if x = a \<or> x \<in> set (upfrom (Suc a) (length (flat hs))) then None
                       else H' x),
          next_addr = n,
          trace = T @ map Free (upfrom (Suc a) (length (flat hs))) @ [Free a]\<rparr>"
  using assms by (intro FreeHeaders_eq) (simp_all add: length_upfrom length_flat set_upfrom)

lemma FreeHeaders_after_call:
  "FreeHeaders a (length hs)
     \<lparr>heap = (case r of None \<Rightarrow> call_heap H a hs pb
               | Some buf \<Rightarrow> (call_heap H a hs pb)(after_marshal a hs pb \<mapsto> Chars buf)),
      next_addr = n, trace = T\<rparr> =
   Inr \<lparr>heap = freed_heap H a hs pb r, next_addr = n,
        trace = T @ map Free (upfrom (Suc a) (length (flat hs))) @ [Free a]\<rparr>"
proof -
  let ?H = "(case r of None \<Rightarrow> call_heap H a hs pb
               | Some buf \<Rightarrow> (call_heap H a hs pb)(after_marshal a hs pb \<mapsto> Chars buf))"
  have arr: "?H a = Some (Ptrs (upfrom (Suc a) (length (flat hs))))"
    using call_heap_array [of H a hs pb] by (simp add: after_marshal_def split: option.splits)
  have "(\<lambda>x. if x = a \<or> x \<in> set (upfrom (Suc a) (length (flat hs))) then None else ?H x)
        = freed_heap H a hs pb r"
    by (auto simp: fun_eq_iff set_upfrom call_heap_def marshalled_def freed_heap_def
        after_marshal_def split: option.splits)
  then show ?thesis
    using FreeHeaders_call_heap [where H' = ?H and a = a and hs = hs and n = n and T = T, OF arr]
    by simp
qed

lemma DoRequest_steps:
  assumes "body_in_range bd bl"
    and "request_reply hst cl m u hs (payload_bytes bd bl) bl H a = Inr r"
  shows "DoRequest hst cl m u hs bd bl handler \<lparr>heap = H, next_addr = a, trace = T\<rparr> =
     request_result
       (case r of None \<Rightarrow> None | Some buf \<Rightarrow> Some (after_marshal a hs (payload_bytes bd bl)))
       handler
       (case payload_ptr a hs (payload_bytes bd bl) of
          None \<Rightarrow>
            \<lparr>heap = freed_heap H a hs (payload_bytes bd bl) r,
             next_addr = (case r of None \<Rightarrow> after_marshal a hs (payload_bytes bd bl)
                          | Some buf \<Rightarrow> Suc (after_marshal a hs (payload_bytes bd bl))),
             trace = ((T @ marshal_events a hs (payload_bytes bd bl))
                      @ [HostCall (request_primitive cl) r]
                      @ (case r of None \<Rightarrow> []
                         | Some buf \<Rightarrow> [Malloc (after_marshal a hs (payload_bytes bd bl))]))
                     @ map Free (upfrom (Suc a) (length (flat hs))) @ [Free a]\<rparr>
        | Some p \<Rightarrow>
            free p
            \<lparr>heap = freed_heap H a hs (payload_bytes bd bl) r,
             next_addr = (case r of None \<Rightarrow> after_marshal a hs (payload_bytes bd bl)
                          | Some buf \<Rightarrow> Suc (after_marshal a hs (payload_bytes bd bl))),
             trace = ((T @ marshal_events a hs (payload_bytes bd bl))
                      @ [HostCall (request_primitive cl) r]
                      @ (case r of None \<Rightarrow> []
                         | Some buf \<Rightarrow> [Malloc (after_marshal a hs (payload_bytes bd bl))]))
                     @ map Free (upfrom (Suc a) (length (flat hs))) @ [Free a]\<rparr>)"
  by (simp only: DoRequest_def Let_def PrepareHeaders_eq sum.case prod.case copy_payload_eq
      assms if_True host_call_eq FreeHeaders_after_call)

lemma DoRequest_null:
  assumes "body_in_range bd bl"
    and "request_reply hst cl m u hs (payload_bytes bd bl) bl H a = Inr None"
  shows "DoRequest hst cl m u hs bd bl handler \<lparr>heap = H, next_addr = a, trace = T\<rparr> =
     Inr (not_found_response ''Request failed - check console for errors'',
          \<lparr>heap = clear H a (after_marshal a hs (payload_bytes bd bl)),
           next_addr = after_marshal a hs (payload_bytes bd bl),
           trace = T @ request_events (request_primitive cl) a hs (payload_bytes bd bl) None []\<rparr>)"
proof (cases "payload_bytes bd bl")
  case None
  have "freed_heap H a hs None None = clear H a (after_marshal a hs None)"
    by (auto simp: freed_heap_def clear_def after_marshal_def fun_eq_iff)
  then show ?thesis
    unfolding DoRequest_steps [OF assms] None
    by (simp add: request_result_def not_found_response_def request_events_def
        release_events_def payload_ptr_def)
next
  case (Some bs)
  have "(freed_heap H a hs (Some bs) None)(Suc a + length (flat hs) := None)
        = clear H a (after_marshal a hs (Some bs))"
    by (auto simp: freed_heap_def clear_def after_marshal_def fun_eq_iff)
  then show ?thesis
    unfolding DoRequest_steps [OF assms] Some
    by (simp add: request_result_def not_found_response_def request_events_def
        release_events_def payload_ptr_def free_def)
qed

lemma DoRequest_buffer:
  assumes "body_in_range bd bl"
    and "request_reply hst cl m u hs (payload_bytes bd bl) bl H a = Inr (Some buf)"
  shows "DoRequest hst cl m u hs bd bl handler \<lparr>heap = H, next_addr = a, trace = T\<rparr> =
     (case decode_wire buf of
        Inl f \<Rightarrow> Inl f
      | Inr bytes \<Rightarrow>
          Inr ((make_response OK_200)\<lparr>body := bytes\<rparr>,
               \<lparr>heap = clear H a (Suc (after_marshal a hs (payload_bytes bd bl))),
                next_addr = Suc (after_marshal a hs (payload_bytes bd bl)),
                trace = T @ request_events (request_primitive cl) a hs (payload_bytes bd bl)
                              (Some buf) (if handler then [ContentHandler bytes] else [])\<rparr>))"
proof (cases "payload_bytes bd bl")
  case None
  have r: "freed_heap H a hs None (Some buf) (after_marshal a hs None) = Some (Chars buf)"
    by (simp add: freed_heap_def after_marshal_def)
  have "(freed_heap H a hs None (Some buf))(after_marshal a hs None := None)
        = clear H a (Suc (after_marshal a hs None))"
    by (auto simp: freed_heap_def clear_def after_marshal_def fun_eq_iff)
  then show ?thesis
    unfolding DoRequest_steps [OF assms] None
    by (simp add: request_result_def request_events_def r
        release_events_def payload_ptr_def free_def log_event_def split: sum.splits)
next
  case (Some bs)
  have r: "((freed_heap H a hs (Some bs) (Some buf))(Suc a + length (flat hs) := None))
             (after_marshal a hs (Some bs)) = Some (Chars buf)"
    by (simp add: freed_heap_def after_marshal_def)
  have "(freed_heap H a hs (Some bs) (Some buf))
          (Suc a + length (flat hs) := None, after_marshal a hs (Some bs) := None)
        = clear H a (Suc (after_marshal a hs (Some bs)))"
    by (auto simp: freed_heap_def clear_def after_marshal_def fun_eq_iff)
  then show ?thesis
    unfolding DoRequest_steps [OF assms] Some
    using r
    by (simp add: request_result_def request_events_def
        release_events_def payload_ptr_def free_def log_event_def split: sum.splits)
qed

lemma DoRequest_out_of_range:
  assumes "\<not> body_in_range bd bl"
  shows "DoRequest hst cl m u hs bd bl handler \<lparr>heap = H, next_addr = a, trace = T\<rparr>
         = Inl OutOfBounds"
  by (simp only: DoRequest_def Let_def PrepareHeaders_eq sum.case prod.case copy_payload_eq
      assms if_False)

lemma head_call_eq:
  "(if use_sync_xhr cl
    then em_sync_head_request (browser hst) (c_str (NormalizeUrl (host_port cl) u))
           (length hs) a
           \<lparr>heap = marshalled H a (flat hs), next_addr = Suc a + length (flat hs), trace = T\<rparr>
    else em_async_head_request hst (c_str (NormalizeUrl (host_port cl) u))
           (length hs) a
           \<lparr>heap = marshalled H a (flat hs), next_addr = Suc a + length (flat hs), trace = T\<rparr>)
   = (case head_reply hst cl u hs H a of
        Inl f \<Rightarrow> Inl f
      | Inr r \<Rightarrow>
          Inr (case r of None \<Rightarrow> None | Some buf \<Rightarrow> Some (after_marshal a hs None),
               \<lparr>heap = (case r of None \<Rightarrow> call_heap H a hs None
                         | Some buf \<Rightarrow> (call_heap H a hs None)(after_marshal a hs None \<mapsto> Chars buf)),
                next_addr = (case r of None \<Rightarrow> after_marshal a hs None
                             | Some buf \<Rightarrow> Suc (after_marshal a hs None)),
                trace = T @ [HostCall (head_primitive cl) r]
                        @ (case r of None \<Rightarrow> []
                           | Some buf \<Rightarrow> [Malloc (after_marshal a hs None)])\<rparr>))"
  by (simp add: em_sync_head_request_def em_async_head_request_def head_reply_def
      host_return_def head_primitive_def log_event_def malloc_def call_heap_def
      after_marshal_def split: sum.splits option.splits)

lemma DoHeadRequest_steps:
  assumes "head_reply hst cl u hs H a = Inr r"
  shows "DoHeadRequest hst cl u hs \<lparr>heap = H, next_addr = a, trace = T\<rparr> =
     head_result
       (case r of None \<Rightarrow> None | Some buf \<Rightarrow> Some (after_marshal a hs None))
       \<lparr>heap = freed_heap H a hs None r,
        next_addr = (case r of None \<Rightarrow> after_marshal a hs None
                     | Some buf \<Rightarrow> Suc (after_marshal a hs None)),
        trace = ((T @ map Malloc (upfrom a (Suc (length (flat hs)))))
                 @ [HostCall (head_primitive cl) r]
                 @ (case r of None \<Rightarrow> [] | Some buf \<Rightarrow> [Malloc (after_marshal a hs None)]))
                @ map Free (upfrom (Suc a) (length (flat hs))) @ [Free a]\<rparr>"
  by (simp only: DoHeadRequest_def Let_def PrepareHeaders_eq sum.case prod.case
      assms head_call_eq FreeHeaders_after_call)

lemma DoHeadRequest_null:
  assumes "head_reply hst cl u hs H a = Inr None"
  shows "DoHeadRequest hst cl u hs \<lparr>heap = H, next_addr = a, trace = T\<rparr> =
     Inr (not_found_response ''HEAD request failed'',
          \<lparr>heap = clear H a (after_marshal a hs None),
           next_addr = after_marshal a hs None,
           trace = T @ request_events (head_primitive cl) a hs None None []\<rparr>)"
proof -
  have "freed_heap H a hs None None = clear H a (after_marshal a hs None)"
    by (auto simp: freed_heap_def clear_def after_marshal_def fun_eq_iff)
  then show ?thesis
    unfolding DoHeadRequest_steps [OF assms]
    by (simp add: head_result_def not_found_response_def request_events_def
        release_events_def marshal_events_def)
qed

lemma DoHeadRequest_buffer:
  assumes "head_reply hst cl u hs H a = Inr (Some buf)"
  shows "DoHeadRequest hst cl u hs \<lparr>heap = H, next_addr = a, trace = T\<rparr> =
     (case decode_wire buf of
        Inl f \<Rightarrow> Inl f
      | Inr headers_str \<Rightarrow>
          Inr ((make_response OK_200)\<lparr>headers := parse_response_headers headers_str\<rparr>,
               \<lparr>heap = clear H a (Suc (after_marshal a hs None)),
                next_addr = Suc (after_marshal a hs None),
                trace = T @ request_events (head_primitive cl) a hs None (Some buf) []\<rparr>))"
proof -
  have r: "freed_heap H a hs None (Some buf) (after_marshal a hs None) = Some (Chars buf)"
    by (simp add: freed_heap_def after_marshal_def)
  have "(freed_heap H a hs None (Some buf))(after_marshal a hs None := None)
        = clear H a (Suc (after_marshal a hs None))"
    by (auto simp: freed_heap_def clear_def after_marshal_def fun_eq_iff)
  then show ?thesis
    unfolding DoHeadRequest_steps [OF assms]
    by (simp add: head_result_def request_events_def r parse_response_headers_def
        make_response_def release_events_def marshal_events_def free_def split: sum.splits)
qed

text \<open>The primitives never read outside the marshalled blocks.\<close>

lemma js_headers_call_heap:
  "js_set_request_headers (call_heap H a hs pb) (length hs) a = Some (installed_headers hs)"
proof (rule js_set_request_headers_eq)
  show "call_heap H a hs pb a = Some (Ptrs (upfrom (Suc a) (length (flat hs))))"
    by (rule call_heap_array)
  show "length (upfrom (Suc a) (length (flat hs))) = 2 * length hs"
    by (simp add: length_upfrom length_flat)
  show "\<forall>j<2 * length hs. call_heap H a hs pb (upfrom (Suc a) (length (flat hs)) ! j)
          = Some (Chars (c_str (flat hs ! j)))"
    using call_heap_string [of _ hs H a pb] by (simp add: nth_upfrom length_flat)
qed

lemma int_cast_le:
  assumes "0 < int_cast n"
  shows "nat (int_cast n) \<le> n"
proof -
  let ?w = "word_of_nat n :: 32 word"
  have pos: "0 \<le> sint ?w" using assms by (simp add: int_cast_def)
  have "sint ?w < 2 ^ (LENGTH(32) - 1)" by (rule sint_lt)
  then have "sint ?w < 2 ^ LENGTH(32)" by simp
  then have "take_bit LENGTH(32) (sint ?w) = sint ?w"
    using pos by (intro take_bit_int_eq_self) auto
  then have "sint ?w = uint ?w" by (simp add: uint_sint)
  also have "\<dots> = int (unat ?w)" by (rule uint_nat)
  also have "\<dots> = int (n mod 2 ^ 32)" by (simp add: unat_of_nat)
  also have "\<dots> \<le> int n" by simp
  finally show ?thesis by (simp add: int_cast_def)
qed

lemma js_body_call_heap:
  assumes "body_in_range bd bl"
  shows "js_body (call_heap H a hs (payload_bytes bd bl))
           (payload_ptr a hs (payload_bytes bd bl)) (int_cast bl)
         = Inr (js_sent_body (payload_bytes bd bl) bl)"
proof (cases "payload_bytes bd bl")
  case None
  then show ?thesis by (simp add: js_body_def payload_ptr_def js_sent_body_def)
next
  case (Some bs)
  then have len: "length bs = bl"
    using assms
    by (auto simp: payload_bytes_def body_in_range_def split: option.splits if_splits)
  show ?thesis
  proof (cases "0 < int_cast bl")
    case True
    then show ?thesis
      using Some len int_cast_le [OF True]
      by (simp add: js_body_def payload_ptr_def call_heap_def js_sent_body_def)
  next
    case False
    then show ?thesis
      using Some by (simp add: js_body_def payload_ptr_def js_sent_body_def)
  qed
qed

text \<open>What the selected primitive is asked and returns, on the heap of the call.\<close>

lemma request_reply_eq:
  assumes "body_in_range bd bl"
  shows "request_reply hst cl m u hs (payload_bytes bd bl) bl H a =
     (if use_sync_xhr cl then
        (if \<not> XMLHttpRequest_defined (browser hst) then Inr None
         else if xhr_open_throws (browser hst) (js_string m)
                   (js_string (NormalizeUrl (host_port cl) u))
                 \<or> xhr_responseType_throws (browser hst)
         then Inl UncaughtException
         else Inr (xhr_request (browser hst) (js_string m)
                     (js_string (NormalizeUrl (host_port cl) u)) (installed_headers hs)
                     (js_sent_body (payload_bytes bd bl) bl)))
      else Inr (async_request hst (js_string m) (js_string (NormalizeUrl (host_port cl) u))
                  (installed_headers hs) (js_sent_body (payload_bytes bd bl) bl)))"
  by (simp add: request_reply_def Let_def sync_request_js_def async_request_js_def
      js_headers_call_heap js_body_call_heap [OF assms] js_string_c_str)

lemma head_reply_eq:
  "head_reply hst cl u hs H a =
     (if use_sync_xhr cl then
        (if \<not> XMLHttpRequest_defined (browser hst) then Inr None
         else if xhr_open_throws (browser hst) ''HEAD''
                   (js_string (NormalizeUrl (host_port cl) u))
         then Inl UncaughtException
         else Inr (xhr_head_request (browser hst)
                     (js_string (NormalizeUrl (host_port cl) u)) (installed_headers hs)))
      else Inr (async_head_request hst (js_string (NormalizeUrl (host_port cl) u))
                  (installed_headers hs)))"
  by (simp add: head_reply_def Let_def sync_head_request_js_def async_head_request_js_def
      js_headers_call_heap js_string_c_str)

lemma request_reply_returns:
  assumes "honours_wire_contract hst" "body_in_range bd bl"
  shows "\<exists>r. request_reply hst cl m u hs (payload_bytes bd bl) bl H a = Inr r"
  using assms(1) by (simp add: request_reply_eq [OF assms(2)] honours_wire_contract_def)

lemma head_reply_returns:
  assumes "honours_wire_contract hst"
  shows "\<exists>r. head_reply hst cl u hs H a = Inr r"
  using assms by (simp add: head_reply_eq honours_wire_contract_def)

lemma DoRequest_fault:
  assumes "body_in_range bd bl"
    and "request_reply hst cl m u hs (payload_bytes bd bl) bl H a = Inl f"
  shows "DoRequest hst cl m u hs bd bl handler \<lparr>heap = H, next_addr = a, trace = T\<rparr> = Inl f"
  by (simp only: DoRequest_def Let_def PrepareHeaders_eq sum.case prod.case copy_payload_eq
      assms if_True host_call_eq)

lemma DoHeadRequest_fault:
  assumes "head_reply hst cl u hs H a = Inl f"
  shows "DoHeadRequest hst cl u hs \<lparr>heap = H, next_addr = a, trace = T\<rparr> = Inl f"
  by (simp only: DoHeadRequest_def Let_def PrepareHeaders_eq sum.case prod.case
      assms head_call_eq)

subsection \<open>The verbs\<close>

lemma payload_bytes_None [simp]: "payload_bytes None n = None"
  by (simp add: payload_bytes_def)

lemma body_in_range_None [simp]: "body_in_range None n"
  by (simp add: body_in_range_def)

lemma DoRequest_eq:
  assumes "body_in_range bd bl"
    and "request_reply hst cl m u hs (payload_bytes bd bl) bl H a = Inr r"
  shows "DoRequest hst cl m u hs bd bl handler \<lparr>heap = H, next_addr = a, trace = T\<rparr> =
     (case r of
        None \<Rightarrow>
          Inr (not_found_response ''Request failed - check console for errors'',
               \<lparr>heap = clear H a (after_marshal a hs (payload_bytes bd bl)),
                next_addr = after_marshal a hs (payload_bytes bd bl),
                trace = T @ request_events (request_primitive cl) a hs (payload_bytes bd bl)
                              None []\<rparr>)
      | Some buf \<Rightarrow>
          (case decode_wire buf of
             Inl f \<Rightarrow> Inl f
           | Inr bytes \<Rightarrow>
               Inr ((make_response OK_200)\<lparr>body := bytes\<rparr>,
                    \<lparr>heap = clear H a (Suc (after_marshal a hs (payload_bytes bd bl))),
                     next_addr = Suc (after_marshal a hs (payload_bytes bd bl)),
                     trace = T @ request_events (request_primitive cl) a hs
                                   (payload_bytes bd bl) (Some buf)
                                   (if handler then [ContentHandler bytes] else [])\<rparr>)))"
proof (cases r)
  case None
  then show ?thesis using DoRequest_null [OF assms(1)] assms(2) by simp
next
  case (Some buf)
  then show ?thesis using DoRequest_buffer [OF assms(1)] assms(2) by simp
qed

lemma DoHeadRequest_eq:
  assumes "head_reply hst cl u hs H a = Inr r"
  shows "DoHeadRequest hst cl u hs \<lparr>heap = H, next_addr = a, trace = T\<rparr> =
     (case r of
        None \<Rightarrow>
          Inr (not_found_response ''HEAD request failed'',
               \<lparr>heap = clear H a (after_marshal a hs None),
                next_addr = after_marshal a hs None,
                trace = T @ request_events (head_primitive cl) a hs None None []\<rparr>)
      | Some buf \<Rightarrow>
          (case decode_wire buf of
             Inl f \<Rightarrow> Inl f
           | Inr headers_str \<Rightarrow>
               Inr ((make_response OK_200)\<lparr>headers := parse_response_headers headers_str\<rparr>,
                    \<lparr>heap = clear H a (Suc (after_marshal a hs None)),
                     next_addr = Suc (after_marshal a hs None),
                     trace = T @ request_events (head_primitive cl) a hs None (Some buf) []\<rparr>)))"
proof (cases r)
  case None
  then show ?thesis using DoHeadRequest_null assms by simp
next
  case (Some buf)
  then show ?thesis using DoHeadRequest_buffer assms by simp
qed

lemma call_verb_eq:
  assumes "body_in_range (verb_body v info) (verb_body_len v info)"
    and "verb_reply hst cl v info H a = Inr r"
  shows "call_verb hst cl v info \<lparr>heap = H, next_addr = a, trace = T\<rparr>
         = verb_outcome cl v info H a T r"
proof (cases v)
  case GET
  then show ?thesis
    using assms
    by (simp add: call_verb_def Get_def verb_reply_def verb_method_def verb_payload_def
        verb_body_def verb_body_len_def DoRequest_eq verb_outcome_def verb_primitive_def
        failure_reason_def success_response_def info_after_def handler_events_def
        split: option.splits sum.splits)
next
  case HEAD
  then show ?thesis
    using assms
    by (simp add: call_verb_def Head_def verb_reply_def verb_payload_def
        verb_body_def verb_body_len_def DoHeadRequest_eq verb_outcome_def verb_primitive_def
        failure_reason_def success_response_def info_after_def handler_events_def
        split: option.splits sum.splits)
next
  case POST
  then show ?thesis
    using assms
    by (simp add: call_verb_def Post_def verb_reply_def verb_method_def verb_payload_def
        verb_body_def verb_body_len_def DoRequest_eq verb_outcome_def verb_primitive_def
        failure_reason_def success_response_def info_after_def handler_events_def
        not_found_response_def make_response_def
        split: option.splits sum.splits)
next
  case PUT
  then show ?thesis
    using assms
    by (simp add: call_verb_def Put_def verb_reply_def verb_method_def verb_payload_def
        verb_body_def verb_body_len_def DoRequest_eq verb_outcome_def verb_primitive_def
        failure_reason_def success_response_def info_after_def handler_events_def
        split: option.splits sum.splits)
next
  case DELETE
  then show ?thesis
    using assms
    by (simp add: call_verb_def Delete_def verb_reply_def verb_method_def verb_payload_def
        verb_body_def verb_body_len_def DoRequest_eq verb_outcome_def verb_primitive_def
        failure_reason_def success_response_def info_after_def handler_events_def
        split: option.splits sum.splits)
qed

lemma call_verb_out_of_range:
  assumes "\<not> body_in_range (verb_body v info) (verb_body_len v info)"
  shows "call_verb hst cl v info \<lparr>heap = H, next_addr = a, trace = T\<rparr> = Inl OutOfBounds"
  using assms
  by (cases v)
    (simp_all add: call_verb_def Post_def Put_def verb_body_def verb_body_len_def
      DoRequest_out_of_range)

lemma call_verb_fault:
  assumes "body_in_range (verb_body v info) (verb_body_len v info)"
    and "verb_reply hst cl v info H a = Inl f"
  shows "call_verb hst cl v info \<lparr>heap = H, next_addr = a, trace = T\<rparr> = Inl f"
  using assms
  by (cases v)
    (simp_all add: call_verb_def Get_def Head_def Post_def Put_def Delete_def verb_reply_def
      verb_method_def verb_payload_def verb_body_def verb_body_len_def DoRequest_fault
      DoHeadRequest_fault)

lemma js_string_verb_method: "js_string (verb_method v) = verb_method v"
  by (cases v) (simp_all add: verb_method_def js_string_def)

lemma verb_reply_eq:
  assumes "body_in_range (verb_body v info) (verb_body_len v info)"
  shows "verb_reply hst cl v info H a =
     (if use_sync_xhr cl \<and> XMLHttpRequest_defined (browser hst)
         \<and> (xhr_open_throws (browser hst) (verb_method v)
                (js_string (NormalizeUrl (host_port cl) (url info)))
              \<or> v \<noteq> HEAD \<and> xhr_responseType_throws (browser hst))
      then Inl UncaughtException
      else Inr (host_answer hst cl v (js_string (NormalizeUrl (host_port cl) (url info)))
                  (installed_headers (req_headers info))
                  (js_sent_body (verb_payload v info) (verb_body_len v info))))"
proof (cases "v = HEAD")
  case True
  then show ?thesis
    by (simp add: verb_reply_def head_reply_eq host_answer_def verb_method_def)
next
  case False
  then have "verb_reply hst cl v info H a
             = request_reply hst cl (verb_method v) (url info) (req_headers info)
                 (payload_bytes (verb_body v info) (verb_body_len v info))
                 (verb_body_len v info) H a"
    by (cases v) (simp_all add: verb_reply_def verb_payload_def)
  then show ?thesis
    using False
    by (simp add: request_reply_eq [OF assms] host_answer_def js_string_verb_method
        verb_payload_def)
qed

lemma call_verb_eq_world:
  assumes "body_in_range (verb_body v info) (verb_body_len v info)"
    and "verb_reply hst cl v info (heap w) (next_addr w) = Inr r"
  shows "call_verb hst cl v info w
         = verb_outcome cl v info (heap w) (next_addr w) (trace w) r"
  using call_verb_eq [OF assms, of "trace w"] by (cases w) simp


lemma call_verb_in_range:
  assumes "call_verb hst cl v info w = Inr x"
  shows "body_in_range (verb_body v info) (verb_body_len v info)"
proof (rule ccontr)
  assume "\<not> body_in_range (verb_body v info) (verb_body_len v info)"
  from call_verb_out_of_range [OF this, of hst cl "heap w" "next_addr w" "trace w"]
  have "call_verb hst cl v info w = Inl OutOfBounds" by (cases w) simp
  with assms show False by simp
qed

lemma verb_reply_returns:
  assumes "honours_wire_contract hst"
    and "body_in_range (verb_body v info) (verb_body_len v info)"
  shows "\<exists>r. verb_reply hst cl v info H a = Inr r"
  using assms request_reply_returns head_reply_returns
  by (cases v) (simp_all add: verb_reply_def verb_payload_def)

lemma mallocs_append: "mallocs (xs @ ys) = mallocs xs @ mallocs ys"
  by (induction xs rule: mallocs.induct) simp_all

lemma frees_append: "frees (xs @ ys) = frees xs @ frees ys"
  by (induction xs rule: frees.induct) simp_all

lemma host_calls_append: "host_calls (xs @ ys) = host_calls xs @ host_calls ys"
  by (induction xs rule: host_calls.induct) simp_all

lemma handler_calls_append: "handler_calls (xs @ ys) = handler_calls xs @ handler_calls ys"
  by (induction xs rule: handler_calls.induct) simp_all

lemma probes_append: "probes (xs @ ys) = probes xs + probes ys"
  by (induction xs rule: probes.induct) simp_all

lemma events_of_mallocs:
  "mallocs (map Malloc xs) = xs" "frees (map Malloc xs) = []" "host_calls (map Malloc xs) = []"
  "handler_calls (map Malloc xs) = []" "probes (map Malloc xs) = 0"
  by (induction xs) simp_all

lemma events_of_frees:
  "mallocs (map Free xs) = []" "frees (map Free xs) = xs" "host_calls (map Free xs) = []"
  "handler_calls (map Free xs) = []" "probes (map Free xs) = 0"
  by (induction xs) simp_all

lemma events_of_handler_events:
  "mallocs (handler_events v info b) = []" "frees (handler_events v info b) = []"
  "host_calls (handler_events v info b) = []" "probes (handler_events v info b) = 0"
  "handler_calls (handler_events v info b)
     = (if v = GET \<and> content_handler info then [b] else [])"
  by (simp_all add: handler_events_def split: verb.splits)

lemma events_of_verb_tail:
  "mallocs (verb_tail v info r) = []" "frees (verb_tail v info r) = []"
  "host_calls (verb_tail v info r) = []" "probes (verb_tail v info r) = 0"
  by (simp_all add: verb_tail_def events_of_handler_events split: option.splits sum.splits)

lemmas events_append =
  mallocs_append frees_append host_calls_append handler_calls_append probes_append

lemma request_events_summary:
  assumes "mallocs te = []" "frees te = []" "host_calls te = []" "probes te = 0"
  shows "host_calls (request_events prim a hs pb r te) = [(prim, r)]"
    and "probes (request_events prim a hs pb r te) = 0"
    and "mallocs (request_events prim a hs pb r te)
         = upfrom a (Suc (length (flat hs)))
           @ (case pb of None \<Rightarrow> [] | Some bs \<Rightarrow> [Suc a + length (flat hs)])
           @ (case r of None \<Rightarrow> [] | Some buf \<Rightarrow> [after_marshal a hs pb])"
    and "frees (request_events prim a hs pb r te)
         = upfrom (Suc a) (length (flat hs)) @ [a]
           @ (case pb of None \<Rightarrow> [] | Some bs \<Rightarrow> [Suc a + length (flat hs)])
           @ (case r of None \<Rightarrow> [] | Some buf \<Rightarrow> [after_marshal a hs pb])"
  using assms
  by (simp_all add: request_events_def marshal_events_def release_events_def events_append
      events_of_mallocs events_of_frees split: option.splits)

lemma before_call_request_events:
  "before_call (request_events prim a hs pb r te) = marshal_events a hs pb"
proof -
  have "\<forall>e\<in>set (marshal_events a hs pb). \<not> is_host_call e"
    by (auto simp: marshal_events_def split: option.splits)
  then show ?thesis
    by (simp add: before_call_def request_events_def)
qed

lemma after_call_request_events:
  "after_call (request_events prim a hs pb r te)
   = (case r of None \<Rightarrow> [] | Some buf \<Rightarrow> [Malloc (after_marshal a hs pb)])
     @ release_events a hs pb
     @ (case r of None \<Rightarrow> [] | Some buf \<Rightarrow> te @ [Free (after_marshal a hs pb)])"
proof -
  have "\<forall>e\<in>set (marshal_events a hs pb). \<not> is_host_call e"
    by (auto simp: marshal_events_def split: option.splits)
  then show ?thesis
    by (simp add: after_call_def request_events_def)
qed

lemma verb_outcome_trace:
  assumes "verb_outcome cl v info H a T r = Inr (res, info', w')"
  shows "trace w' = T @ request_events (verb_primitive cl v) a (req_headers info)
                         (verb_payload v info) r (verb_tail v info r)"
    and "heap w' = clear H a (next_addr w')"
    and "next_addr w' = (case r of None \<Rightarrow> after_marshal a (req_headers info) (verb_payload v info)
                         | Some buf \<Rightarrow> Suc (after_marshal a (req_headers info) (verb_payload v info)))"
  using assms
  by (auto simp: verb_outcome_def verb_tail_def request_events_def
      split: option.splits sum.splits)

lemma call_verb_Inr:
  assumes "call_verb hst cl v info \<lparr>heap = H, next_addr = a, trace = T\<rparr> = Inr (res, info', w')"
  shows "\<exists>r. verb_reply hst cl v info H a = Inr r
             \<and> verb_outcome cl v info H a T r = Inr (res, info', w')"
proof -
  have rng: "body_in_range (verb_body v info) (verb_body_len v info)"
    using assms call_verb_out_of_range by fastforce
  show ?thesis
  proof (cases "verb_reply hst cl v info H a")
    case (Inl f)
    then show ?thesis using assms call_verb_fault [OF rng Inl, of T] by simp
  next
    case (Inr r)
    then show ?thesis using assms call_verb_eq [OF rng Inr, of T] by auto
  qed
qed

lemma call_verb_new_events:
  assumes "call_verb hst cl v info w = Inr (res, info', w')"
  shows "\<exists>r. verb_reply hst cl v info (heap w) (next_addr w) = Inr r
           \<and> verb_outcome cl v info (heap w) (next_addr w) (trace w) r = Inr (res, info', w')
           \<and> new_events w w' = request_events (verb_primitive cl v) (next_addr w)
                 (req_headers info) (verb_payload v info) r (verb_tail v info r)"
proof -
  have "call_verb hst cl v info \<lparr>heap = heap w, next_addr = next_addr w, trace = trace w\<rparr>
        = Inr (res, info', w')"
    using assms by (cases w) simp
  from call_verb_Inr [OF this] obtain r where
    r: "verb_reply hst cl v info (heap w) (next_addr w) = Inr r"
    and o: "verb_outcome cl v info (heap w) (next_addr w) (trace w) r = Inr (res, info', w')"
    by blast
  from verb_outcome_trace(1) [OF o] have "new_events w w'
        = request_events (verb_primitive cl v) (next_addr w)
                 (req_headers info) (verb_payload v info) r (verb_tail v info r)"
    by (simp add: new_events_def)
  with r o show ?thesis by blast
qed

lemma set_upfrom_Suc: "set (upfrom a (Suc k)) = insert a (set (upfrom (Suc a) k))"
  by simp

lemma distinct_upfrom: "distinct (upfrom a k)"
  by (simp add: upfrom_upt)

text \<open>
  C8. In every dispatch that returns a response (on the success path and on the
  null-return path) there is one host call; before it the dispatch allocates the pointer
  array, the \<open>2N\<close> name and value buffers and, when a body is present, the body copy, and
  frees nothing; every block allocated during the dispatch is freed exactly once, after
  the host call has returned; the only allocation after the call is the wire buffer the
  host returns, and the bridge frees it last, after the payload is decoded; no block of
  the dispatch is left in the heap.
\<close>

theorem dispatch_allocations_released:
  assumes "call_verb hst cl v info w = Inr (res, info', w')"
  shows "length (host_calls (new_events w w')) = 1
    \<and> length (mallocs (before_call (new_events w w')))
        = 1 + 2 * length (req_headers info) + (if verb_payload v info = None then 0 else 1)
    \<and> frees (before_call (new_events w w')) = []
    \<and> distinct (mallocs (new_events w w'))
    \<and> distinct (frees (after_call (new_events w w')))
    \<and> set (frees (after_call (new_events w w'))) = set (mallocs (new_events w w'))
    \<and> (case snd (hd (host_calls (new_events w w'))) of
          None \<Rightarrow> mallocs (after_call (new_events w w')) = []
        | Some buf \<Rightarrow> mallocs (after_call (new_events w w')) = [next_addr w' - 1]
                      \<and> last (new_events w w') = Free (next_addr w' - 1))
    \<and> heap w' = clear (heap w) (next_addr w) (next_addr w')"
proof -
  from call_verb_new_events [OF assms] obtain r where
    o: "verb_outcome cl v info (heap w) (next_addr w) (trace w) r = Inr (res, info', w')"
    and E: "new_events w w' = request_events (verb_primitive cl v) (next_addr w)
                 (req_headers info) (verb_payload v info) r (verb_tail v info r)"
    by blast
  let ?a = "next_addr w" and ?hs = "req_headers info" and ?pb = "verb_payload v info"
  let ?te = "verb_tail v info r"
  note tl = events_of_verb_tail [of v info r]
  note sm = request_events_summary [OF tl, of "verb_primitive cl v" ?a ?hs ?pb]
  have hc: "length (host_calls (new_events w w')) = 1"
    by (simp add: E sm)
  have bc: "mallocs (before_call (new_events w w'))
            = upfrom ?a (Suc (length (flat ?hs)))
              @ (case ?pb of None \<Rightarrow> [] | Some bs \<Rightarrow> [Suc ?a + length (flat ?hs)])"
    by (simp add: E before_call_request_events marshal_events_def events_append
        events_of_mallocs split: option.splits)
  have m1: "length (mallocs (before_call (new_events w w')))
        = 1 + 2 * length ?hs + (if ?pb = None then 0 else 1)"
    by (simp add: bc length_upfrom length_flat split: option.splits)
  have f0: "frees (before_call (new_events w w')) = []"
    by (simp add: E before_call_request_events marshal_events_def events_append
        events_of_mallocs split: option.splits)
  have ms: "mallocs (new_events w w')
         = upfrom ?a (Suc (length (flat ?hs)))
           @ (case ?pb of None \<Rightarrow> [] | Some bs \<Rightarrow> [Suc ?a + length (flat ?hs)])
           @ (case r of None \<Rightarrow> [] | Some buf \<Rightarrow> [after_marshal ?a ?hs ?pb])"
    by (simp only: E sm)
  have fs: "frees (after_call (new_events w w'))
         = upfrom (Suc ?a) (length (flat ?hs)) @ [?a]
           @ (case ?pb of None \<Rightarrow> [] | Some bs \<Rightarrow> [Suc ?a + length (flat ?hs)])
           @ (case r of None \<Rightarrow> [] | Some buf \<Rightarrow> [after_marshal ?a ?hs ?pb])"
    by (simp add: E after_call_request_events release_events_def events_append
        events_of_frees events_of_verb_tail split: option.splits)
  have d1: "distinct (mallocs (new_events w w'))"
    unfolding ms
    by (auto simp: distinct_upfrom set_upfrom after_marshal_def simp del: upfrom.simps
        split: option.splits)
  have d2: "distinct (frees (after_call (new_events w w')))"
    unfolding fs
    by (auto simp: distinct_upfrom set_upfrom after_marshal_def simp del: upfrom.simps
        split: option.splits)
  have st: "set (frees (after_call (new_events w w'))) = set (mallocs (new_events w w'))"
    unfolding ms fs
    by (auto simp: set_upfrom simp del: upfrom.simps split: option.splits)
  have na: "next_addr w' = (case r of None \<Rightarrow> after_marshal ?a ?hs ?pb
                         | Some buf \<Rightarrow> Suc (after_marshal ?a ?hs ?pb))"
    by (rule verb_outcome_trace(3) [OF o])
  have hcs: "host_calls (new_events w w') = [(verb_primitive cl v, r)]"
    by (simp add: E sm)
  have ma: "mallocs (after_call (new_events w w'))
            = (case r of None \<Rightarrow> [] | Some buf \<Rightarrow> [after_marshal ?a ?hs ?pb])"
    by (simp add: E after_call_request_events release_events_def events_append
        events_of_frees events_of_verb_tail split: option.splits)
  have lst: "last (new_events w w') = Free (after_marshal ?a ?hs ?pb)" if "r = Some buf" for buf
    using that by (simp add: E request_events_def)
  have wb: "(case snd (hd (host_calls (new_events w w'))) of
          None \<Rightarrow> mallocs (after_call (new_events w w')) = []
        | Some buf \<Rightarrow> mallocs (after_call (new_events w w')) = [next_addr w' - 1]
                      \<and> last (new_events w w') = Free (next_addr w' - 1))"
    using lst by (cases r) (simp_all add: hcs ma na)
  have hp: "heap w' = clear (heap w) (next_addr w) (next_addr w')"
    by (rule verb_outcome_trace(2) [OF o])
  show ?thesis
    using hc m1 f0 d1 d2 st wb hp by blast
qed

lemma wire_ok_decode: "wire_ok buf \<Longrightarrow> \<exists>b. decode_wire buf = Inr b"
  by (simp add: wire_ok_def decode_wire_def Let_def)

lemma decode_wire_Inr_wire_ok: "decode_wire buf = Inr b \<Longrightarrow> wire_ok buf"
  by (auto simp: wire_ok_def decode_wire_def Let_def split: if_splits)

lemma wire_ok_encode_wire: "wire_ok (encode_wire B)"
proof -
  have "unat (js_ToInt32 (length B)) \<le> length B"
    by (simp add: js_ToInt32_def unat_of_nat)
  then show ?thesis
    by (simp add: wire_ok_def read_length_encode_wire length_encode_wire)
qed

lemma sync_request_js_wire_ok:
  "sync_request_js br h u m n z p l = Inr (Some buf) \<Longrightarrow> wire_ok buf"
  by (auto simp: sync_request_js_def xhr_request_def wire_ok_encode_wire
      split: if_splits option.splits sum.splits xhr_result.splits)

lemma sync_head_request_js_wire_ok:
  "sync_head_request_js br h u n z = Inr (Some buf) \<Longrightarrow> wire_ok buf"
  by (auto simp: sync_head_request_js_def xhr_head_request_def wire_ok_encode_wire
      split: if_splits option.splits sum.splits xhr_result.splits)

lemma async_request_js_wire_ok:
  "honours_wire_contract hst \<Longrightarrow> async_request_js hst h u m n z p l = Inr (Some buf)
   \<Longrightarrow> wire_ok buf"
  by (auto simp: async_request_js_def honours_wire_contract_def
      split: option.splits sum.splits)

lemma async_head_request_js_wire_ok:
  "honours_wire_contract hst \<Longrightarrow> async_head_request_js hst h u n z = Inr (Some buf)
   \<Longrightarrow> wire_ok buf"
  by (auto simp: async_head_request_js_def honours_wire_contract_def split: option.splits)

lemma verb_reply_wire_ok:
  assumes "honours_wire_contract hst" "verb_reply hst cl v info H a = Inr (Some buf)"
  shows "wire_ok buf"
proof (cases "use_sync_xhr cl")
  case True
  then show ?thesis
    using assms(2) sync_request_js_wire_ok sync_head_request_js_wire_ok
    by (cases v) (auto simp: verb_reply_def request_reply_def head_reply_def Let_def)
next
  case False
  then show ?thesis
    using assms async_request_js_wire_ok async_head_request_js_wire_ok
    by (cases v) (auto simp: verb_reply_def request_reply_def head_reply_def Let_def)
qed

lemma call_verb_returns:
  assumes "honours_wire_contract hst"
    and "body_in_range (verb_body v info) (verb_body_len v info)"
  shows "\<exists>res info' w'. call_verb hst cl v info w = Inr (res, info', w')"
proof -
  obtain r where r: "verb_reply hst cl v info (heap w) (next_addr w) = Inr r"
    using verb_reply_returns [OF assms] by blast
  have eq: "call_verb hst cl v info w
            = verb_outcome cl v info (heap w) (next_addr w) (trace w) r"
    using call_verb_eq [OF assms(2) r, of "trace w"] by (cases w) simp
  show ?thesis
  proof (cases r)
    case None
    then show ?thesis by (simp add: eq verb_outcome_def)
  next
    case (Some buf)
    then obtain b where "decode_wire buf = Inr b"
      using verb_reply_wire_ok [OF assms(1)] r wire_ok_decode by blast
    then show ?thesis using Some by (simp add: eq verb_outcome_def)
  qed
qed

lemma verb_body_in_range:
  "body_in_range (buffer_in info) (buffer_in_len info)
   \<Longrightarrow> body_in_range (verb_body v info) (verb_body_len v info)"
  by (cases v) (simp_all add: verb_body_def verb_body_len_def)

lemma verb_outcome_response:
  assumes "verb_outcome cl v info H a T r = Inr (res, info', w')"
  shows "(r = None \<longrightarrow> res = not_found_response (failure_reason v) \<and> info' = info)
       \<and> (\<forall>buf. r = Some buf \<longrightarrow>
            (\<exists>bytes. decode_wire buf = Inr bytes \<and> res = success_response v bytes
                     \<and> info' = info_after v info bytes))"
  using assms by (auto simp: verb_outcome_def split: option.splits sum.splits)

lemma status_not_found_response:
  "status (not_found_response (failure_reason v)) = NotFound_404"
  "reason (not_found_response (failure_reason v)) \<noteq> []"
  "headers (not_found_response (failure_reason v)) = []"
  "body (not_found_response (failure_reason v)) = []"
  by (cases v; simp add: not_found_response_def make_response_def failure_reason_def)+


lemma body_success_response: "v \<noteq> HEAD \<Longrightarrow> body (success_response v bytes) = bytes"
  by (cases v) (simp_all add: success_response_def make_response_def)

lemma test_host_contract: "wire_ok buf \<Longrightarrow> honours_wire_contract (test_host (Some buf))"
  "honours_wire_contract (test_host None)"
  by (simp_all add: honours_wire_contract_def test_host_def test_browser_def)

lemma test_info_in_range: "body_in_range (buffer_in test_info) (buffer_in_len test_info)"
  by (simp add: test_info_def body_in_range_def)

lemma test_host_reply:
  assumes "body_in_range (verb_body v info) (verb_body_len v info)"
  shows "verb_reply (test_host reply) test_client v info H a = Inr reply"
  by (simp add: verb_reply_eq [OF assms] host_answer_def test_host_def test_client_def)

lemma test_run:
  assumes "call_verb (test_host reply) test_client v info w = Inr (res, info', w')"
  shows "host_calls (new_events w w') = [(AsyncRequest, reply)]
         \<or> host_calls (new_events w w') = [(AsyncHead, reply)]"
proof -
  from call_verb_new_events [OF assms] obtain r where
    r: "verb_reply (test_host reply) test_client v info (heap w) (next_addr w) = Inr r"
    and E: "new_events w w' = request_events (verb_primitive test_client v) (next_addr w)
                 (req_headers info) (verb_payload v info) r (verb_tail v info r)"
    by blast
  have "r = reply" using r by (simp add: test_host_reply [OF call_verb_in_range [OF assms]])
  then show ?thesis
    by (cases v)
      (simp_all add: E request_events_summary events_of_verb_tail verb_primitive_def
        request_primitive_def head_primitive_def test_client_def)
qed




theorem dispatch_allocations_released_witness:
  "\<exists>res info' w'.
     call_verb (test_host (Some (encode_wire ''ok''))) test_client POST test_info empty_world
       = Inr (res, info', w')
     \<and> length (host_calls (new_events empty_world w')) = 1
     \<and> length (mallocs (before_call (new_events empty_world w'))) = 6
     \<and> frees (before_call (new_events empty_world w')) = []
     \<and> distinct (mallocs (new_events empty_world w'))
     \<and> distinct (frees (after_call (new_events empty_world w')))
     \<and> set (frees (after_call (new_events empty_world w')))
         = set (mallocs (new_events empty_world w'))
     \<and> heap w' = clear (heap empty_world) (next_addr empty_world) (next_addr w')"
proof -
  have "honours_wire_contract (test_host (Some (encode_wire ''ok'')))"
    by (rule test_host_contract(1)) (rule wire_ok_encode_wire)
  from call_verb_returns [OF this verb_body_in_range [OF test_info_in_range]]
  obtain res info' w' where
    run: "call_verb (test_host (Some (encode_wire ''ok''))) test_client POST test_info
            empty_world = Inr (res, info', w')"
    by blast
  have pb: "verb_payload POST test_info = Some ''abc''"
    by (simp add: verb_payload_def verb_body_def verb_body_len_def payload_bytes_def
        test_info_def)
  have n: "length (req_headers test_info) = 2" by (simp add: test_info_def)
  show ?thesis
    using dispatch_allocations_released [OF run] run pb n by auto
qed

subsection \<open>Verbs, client lifetime and header marshaling\<close>

lemma Get_call_verb: "Get hst cl info w = call_verb hst cl GET info w"
  and Post_call_verb: "Post hst cl info w = call_verb hst cl POST info w"
  and Put_call_verb: "Put hst cl info w = call_verb hst cl PUT info w"
  and Delete_call_verb: "Delete hst cl info w = call_verb hst cl DELETE info w"
  and Head_call_verb: "Head hst cl info w = call_verb hst cl HEAD info w"
  by (simp_all add: call_verb_def)

lemma call_verb_run:
  assumes "call_verb hst cl v info w = Inr (res, info', w')"
  shows "\<exists>r. host_calls (new_events w w') = [(verb_primitive cl v, r)]
           \<and> handler_calls (new_events w w') = handler_calls (verb_tail v info r)
           \<and> probes (new_events w w') = 0
           \<and> trace w' = trace w @ new_events w w'
           \<and> (r = None \<longrightarrow> res = not_found_response (failure_reason v) \<and> info' = info)
           \<and> (\<forall>buf. r = Some buf \<longrightarrow>
                (\<exists>bytes. decode_wire buf = Inr bytes \<and> res = success_response v bytes
                         \<and> info' = info_after v info bytes))"
proof -
  from call_verb_new_events [OF assms] obtain r where
    o: "verb_outcome cl v info (heap w) (next_addr w) (trace w) r = Inr (res, info', w')"
    and E: "new_events w w' = request_events (verb_primitive cl v) (next_addr w)
                 (req_headers info) (verb_payload v info) r (verb_tail v info r)"
    by blast
  have hc: "host_calls (new_events w w') = [(verb_primitive cl v, r)]"
    and pr: "probes (new_events w w') = 0"
    by (simp_all add: E request_events_summary events_of_verb_tail)
  have hd: "handler_calls (new_events w w') = handler_calls (verb_tail v info r)"
    by (simp add: E request_events_def marshal_events_def release_events_def events_append
        events_of_mallocs events_of_frees verb_tail_def split: option.splits sum.splits)
  have tr: "trace w' = trace w @ new_events w w'"
    using verb_outcome_trace(1) [OF o] by (simp add: E)
  show ?thesis
    using hc pr hd tr verb_outcome_response [OF o] by blast
qed

text \<open>
  C10. Post appends the response body to the caller's output buffer exactly when the
  response has status \<open>OK_200\<close>; when the host primitive returns null the response is
  not-found and the request info, output buffer included, is unchanged; Put and Delete
  leave the request info, output buffer included, unchanged.
\<close>

theorem Post_appends_on_success_only:
  "(\<forall>res info' w'. Post hst cl info w = Inr (res, info', w') \<longrightarrow>
      info' = (if status res = OK_200
               then info\<lparr>buffer_out := buffer_out info @ body res\<rparr> else info)
      \<and> (snd (hd (host_calls (new_events w w'))) = None \<longrightarrow>
           status res = NotFound_404 \<and> info' = info))
   \<and> (\<forall>res info' w'. Put hst cl info w = Inr (res, info', w') \<longrightarrow> info' = info)
   \<and> (\<forall>res info' w'. Delete hst cl info w = Inr (res, info', w') \<longrightarrow> info' = info)"
proof (intro conjI allI impI)
  fix res info' w'
  assume run: "Post hst cl info w = Inr (res, info', w')"
  then show "info' = (if status res = OK_200
               then info\<lparr>buffer_out := buffer_out info @ body res\<rparr> else info)"
    by (auto simp: Post_def Let_def split: sum.splits)
  assume null: "snd (hd (host_calls (new_events w w'))) = None"
  from run have "call_verb hst cl POST info w = Inr (res, info', w')"
    by (simp add: Post_call_verb)
  from call_verb_run [OF this] null
  have "res = not_found_response (failure_reason POST) \<and> info' = info"
    by auto
  then show "status res = NotFound_404" "info' = info"
    by (simp_all add: status_not_found_response)
next
  fix res info' w'
  assume "Put hst cl info w = Inr (res, info', w')"
  then show "info' = info"
    by (auto simp: Put_def split: sum.splits)
next
  fix res info' w'
  assume "Delete hst cl info w = Inr (res, info', w')"
  then show "info' = info"
    by (auto simp: Delete_def split: sum.splits)
qed

lemma test_host_run:
  assumes "wire_ok buf"
  shows "\<exists>res info' w'. call_verb (test_host (Some buf)) test_client v test_info w
            = Inr (res, info', w')"
    and "\<exists>res info' w'. call_verb (test_host None) test_client v test_info w
            = Inr (res, info', w')"
  using call_verb_returns [OF test_host_contract(1) [OF assms]
      verb_body_in_range [OF test_info_in_range]]
    call_verb_returns [OF test_host_contract(2) verb_body_in_range [OF test_info_in_range]]
  by blast+

lemma decode_wire_ok: "decode_wire (encode_wire ''ok'') = Inr ''ok''"
  by (rule decode_encode_wire) simp

theorem Post_appends_on_success_only_witness:
  "(\<exists>res info' w'. Post (test_host (Some (encode_wire ''ok''))) test_client test_info
                      empty_world = Inr (res, info', w')
      \<and> status res = OK_200 \<and> buffer_out info' = ''outok'')
   \<and> (\<exists>res info' w'. Post (test_host None) test_client test_info empty_world
                        = Inr (res, info', w')
      \<and> status res = NotFound_404 \<and> buffer_out info' = ''out'')
   \<and> (\<exists>res info' w'. Put (test_host (Some (encode_wire ''ok''))) test_client test_info
                      empty_world = Inr (res, info', w')
      \<and> buffer_out info' = ''out'')"
proof -
  note inst = Post_appends_on_success_only [where cl = test_client and info = test_info
      and w = empty_world]
  have ok: "wire_ok (encode_wire ''ok'')" by (rule wire_ok_encode_wire)
  obtain res1 info1 w1 where
    r1: "call_verb (test_host (Some (encode_wire ''ok''))) test_client POST test_info
           empty_world = Inr (res1, info1, w1)"
    using test_host_run(1) [OF ok] by blast
  from call_verb_run [OF r1] test_run [OF r1] decode_wire_ok
  have s1: "res1 = success_response POST ''ok''"
    by auto
  have p1: "Post (test_host (Some (encode_wire ''ok''))) test_client test_info empty_world
            = Inr (res1, info1, w1)"
    using r1 by (simp add: Post_call_verb)
  have "info1 = (if status res1 = OK_200
               then test_info\<lparr>buffer_out := buffer_out test_info @ body res1\<rparr>
               else test_info)"
    using inst [where hst = "test_host (Some (encode_wire ''ok''))"] p1 by blast
  then have b1: "status res1 = OK_200 \<and> buffer_out info1 = ''outok''"
    by (simp add: s1 success_response_def make_response_def test_info_def)
  obtain res2 info2 w2 where
    r2: "call_verb (test_host None) test_client POST test_info empty_world
           = Inr (res2, info2, w2)"
    using test_host_run(2) [OF ok] by blast
  have p2: "Post (test_host None) test_client test_info empty_world = Inr (res2, info2, w2)"
    using r2 by (simp add: Post_call_verb)
  have "snd (hd (host_calls (new_events empty_world w2))) = None"
    using test_run [OF r2] by auto
  then have "status res2 = NotFound_404 \<and> info2 = test_info"
    using inst [where hst = "test_host None"] p2 by blast
  then have b2: "status res2 = NotFound_404 \<and> buffer_out info2 = ''out''"
    by (simp add: test_info_def)
  obtain res3 info3 w3 where
    r3: "call_verb (test_host (Some (encode_wire ''ok''))) test_client PUT test_info
           empty_world = Inr (res3, info3, w3)"
    using test_host_run(1) [OF ok] by blast
  have p3: "Put (test_host (Some (encode_wire ''ok''))) test_client test_info empty_world
            = Inr (res3, info3, w3)"
    using r3 by (simp add: Put_call_verb)
  have "info3 = test_info"
    using inst [where hst = "test_host (Some (encode_wire ''ok''))"] p3 by blast
  then have b3: "buffer_out info3 = ''out''" by (simp add: test_info_def)
  show ?thesis
    using p1 b1 p2 b2 p3 b3 by blast
qed

lemma decode_big_endian_hello:
  "unat (read_length big_endian_hello) = 83886080"
  "decode_wire big_endian_hello = Inl OutOfBounds"
  by (simp_all add: big_endian_hello_def decode_wire_def read_length_def)

lemma decode_little_endian_hello: "decode_wire little_endian_hello = Inr ''hello''"
  by (simp add: little_endian_hello_def decode_wire_def read_length_def)

text \<open>
  C3, as stated, fails: the four bytes 0, 0, 0, 5 are the length 5 written most
  significant byte first, and the bridge reads the prefix least significant byte first,
  as 83886080; the buffer holds 5 bytes after the prefix, so the read of the body leaves
  the buffer and no response with body \<open>hello\<close> is made.
\<close>

theorem Get_big_endian_hello_counterexample:
  "unat (read_length big_endian_hello) = 83886080
   \<and> Get (test_host (Some big_endian_hello)) test_client test_info empty_world
       = Inl OutOfBounds"
proof -
  have rng: "body_in_range (verb_body GET test_info) (verb_body_len GET test_info)"
    by (simp add: verb_body_def verb_body_len_def)
  have "verb_reply (test_host (Some big_endian_hello)) test_client GET test_info
          (heap empty_world) (next_addr empty_world) = Inr (Some big_endian_hello)"
    by (rule test_host_reply [OF rng])
  from call_verb_eq_world [OF rng this]
  have "call_verb (test_host (Some big_endian_hello)) test_client GET test_info empty_world
        = Inl OutOfBounds"
    by (simp add: verb_body_def verb_body_len_def verb_outcome_def decode_big_endian_hello)
  then show ?thesis
    by (simp add: Get_call_verb decode_big_endian_hello)
qed

text \<open>
  C3, amended. A Get call whose host primitive returns the buffer of the four bytes
  5, 0, 0, 0 (the length 5, least significant byte first) followed by the five bytes
  \<open>hello\<close> returns a response with status \<open>OK_200\<close> and body \<open>hello\<close>; the trace shows
  that one host call with that buffer, and the content handler, when one was supplied,
  is called exactly once, with those five bytes.
\<close>

theorem Get_little_endian_hello:
  assumes "request_reply hst cl ''GET'' (url info) (req_headers info) None 0
             (heap w) (next_addr w) = Inr (Some little_endian_hello)"
  shows "\<exists>w'. Get hst cl info w = Inr ((make_response OK_200)\<lparr>body := ''hello''\<rparr>, info, w')
           \<and> host_calls (new_events w w') = [(request_primitive cl, Some little_endian_hello)]
           \<and> handler_calls (new_events w w')
               = (if content_handler info then [''hello''] else [])"
proof -
  have r: "verb_reply hst cl GET info (heap w) (next_addr w) = Inr (Some little_endian_hello)"
    using assms by (simp add: verb_reply_def verb_method_def verb_payload_def verb_body_def
        verb_body_len_def)
  have rng: "body_in_range (verb_body GET info) (verb_body_len GET info)"
    by (simp add: verb_body_def verb_body_len_def)
  obtain w' where
    run: "call_verb hst cl GET info w
          = Inr ((make_response OK_200)\<lparr>body := ''hello''\<rparr>, info, w')"
    and ev: "trace w' = trace w @ request_events (verb_primitive cl GET) (next_addr w)
               (req_headers info) (verb_payload GET info) (Some little_endian_hello)
               (handler_events GET info ''hello'')"
    by (simp add: call_verb_eq_world [OF rng r] verb_outcome_def decode_little_endian_hello
        success_response_def info_after_def)
  have E: "new_events w w' = request_events (verb_primitive cl GET) (next_addr w)
               (req_headers info) (verb_payload GET info) (Some little_endian_hello)
               (handler_events GET info ''hello'')"
    by (simp add: new_events_def ev)
  have "host_calls (new_events w w') = [(request_primitive cl, Some little_endian_hello)]"
    by (simp add: E request_events_summary events_of_handler_events verb_primitive_def)
  moreover have "handler_calls (new_events w w')
               = (if content_handler info then [''hello''] else [])"
    by (simp add: E request_events_def marshal_events_def release_events_def events_append
        events_of_mallocs events_of_frees events_of_handler_events split: option.splits)
  ultimately show ?thesis
    using run by (auto simp: Get_call_verb)
qed

theorem Get_little_endian_hello_witness:
  "request_reply (test_host (Some little_endian_hello)) test_client ''GET'' (url test_info)
     (req_headers test_info) None 0 (heap empty_world) (next_addr empty_world)
     = Inr (Some little_endian_hello)
   \<and> (\<exists>w'. Get (test_host (Some little_endian_hello)) test_client test_info empty_world
              = Inr ((make_response OK_200)\<lparr>body := ''hello''\<rparr>, test_info, w')
        \<and> host_calls (new_events empty_world w') = [(AsyncRequest, Some little_endian_hello)]
        \<and> handler_calls (new_events empty_world w') = [''hello''])"
proof -
  have r: "request_reply (test_host (Some little_endian_hello)) test_client ''GET''
     (url test_info) (req_headers test_info) None 0 (heap empty_world) (next_addr empty_world)
     = Inr (Some little_endian_hello)"
    by (simp add: request_reply_eq [where bd = None and bl = 0, simplified] test_host_def
        test_client_def)
  from Get_little_endian_hello [OF r] r show ?thesis
    by (simp add: request_primitive_def test_client_def test_info_def)
qed

lemma verb_primitive_mode: "verb_primitive cl v = mode_primitive (use_sync_xhr cl) v"
  by (cases v) (simp_all add: verb_primitive_def mode_primitive_def request_primitive_def
      head_primitive_def)

lemma run_calls_events:
  assumes "run_calls hst cl calls w = Inr w'"
  shows "\<exists>E. trace w' = trace w @ E \<and> probes E = 0
             \<and> map fst (host_calls E) = map (\<lambda>c. verb_primitive cl (fst c)) calls"
  using assms
proof (induction calls arbitrary: w)
  case Nil
  then show ?case by simp
next
  case (Cons c cs)
  from Cons.prems obtain res info' w1 where
    step: "call_verb hst cl (fst c) (snd c) w = Inr (res, info', w1)"
    and rest: "run_calls hst cl cs w1 = Inr w'"
    by (auto split: sum.splits)
  from call_verb_run [OF step] obtain r where
    hc: "host_calls (new_events w w1) = [(verb_primitive cl (fst c), r)]"
    and pr: "probes (new_events w w1) = 0"
    and tr: "trace w1 = trace w @ new_events w w1"
    by blast
  from Cons.IH [OF rest] obtain E where
    E: "trace w' = trace w1 @ E" "probes E = 0"
       "map fst (host_calls E) = map (\<lambda>c. verb_primitive cl (fst c)) cs"
    by blast
  have "trace w' = trace w @ (new_events w w1 @ E)"
    using tr E(1) by simp
  moreover have "probes (new_events w w1 @ E) = 0"
    using pr E(2) by (simp add: probes_append)
  moreover have "map fst (host_calls (new_events w w1 @ E))
                 = map (\<lambda>c. verb_primitive cl (fst c)) (c # cs)"
    using hc E(3) by (simp add: host_calls_append)
  ultimately show ?case by blast
qed

lemma run_calls_returns:
  assumes "honours_wire_contract hst"
    and "\<forall>c\<in>set calls. body_in_range (buffer_in (snd c)) (buffer_in_len (snd c))"
  shows "\<exists>w'. run_calls hst cl calls w = Inr w'"
  using assms(2)
proof (induction calls arbitrary: w)
  case Nil
  then show ?case by simp
next
  case (Cons c cs)
  have "body_in_range (verb_body (fst c) (snd c)) (verb_body_len (fst c) (snd c))"
    using Cons.prems by (simp add: verb_body_in_range)
  from call_verb_returns [OF assms(1) this]
  obtain res info' w1 where "call_verb hst cl (fst c) (snd c) w = Inr (res, info', w1)"
    by blast
  moreover obtain w' where "run_calls hst cl cs w1 = Inr w'"
    using Cons.IH Cons.prems by auto
  ultimately show ?case by simp
qed

text \<open>
  C7. In a client's lifetime (its construction followed by any sequence of Get, Head,
  Post, Put and Delete calls) the capability probe is called exactly once, as the first
  event; the client's mode is synchronous exactly when the probe returned 1; and every
  dispatch calls the host primitive of that mode: the synchronous request or head
  primitive when the probe returned 1, the asynchronous one otherwise.
\<close>

theorem probe_once_mode_fixed:
  assumes "client_lifetime hst hp calls w = Inr (cl, w')"
  shows "use_sync_xhr cl = (has_xhr hst = 1)
     \<and> probes (new_events w w') = 1
     \<and> hd (new_events w w') = Probe
     \<and> map fst (host_calls (new_events w w'))
         = map (\<lambda>c. mode_primitive (has_xhr hst = 1) (fst c)) calls"
proof -
  let ?cl = "\<lparr>host_port = hp, use_sync_xhr = (has_xhr hst = 1)\<rparr>"
  let ?w0 = "log_event Probe w"
  have ctor: "HTTPWasmClient hst hp w = (?cl, ?w0)"
    by (simp add: HTTPWasmClient_def em_has_xhr_def)
  from assms have cl: "cl = ?cl" and run: "run_calls hst ?cl calls ?w0 = Inr w'"
    by (auto simp: client_lifetime_def ctor split: sum.splits)
  from run_calls_events [OF run] obtain E where
    E: "trace w' = trace ?w0 @ E" "probes E = 0"
       "map fst (host_calls E) = map (\<lambda>c. verb_primitive ?cl (fst c)) calls"
    by blast
  have ne: "new_events w w' = Probe # E"
    using E(1) by (simp add: new_events_def log_event_def)
  show ?thesis
    using E(2,3) by (simp add: ne cl verb_primitive_mode)
qed

theorem probe_once_mode_fixed_witness:
  "\<exists>cl w'. client_lifetime (test_host None) ''https://h''
              [(GET, test_info), (HEAD, test_info), (POST, test_info)] empty_world
            = Inr (cl, w')
     \<and> use_sync_xhr cl = False
     \<and> probes (new_events empty_world w') = 1
     \<and> hd (new_events empty_world w') = Probe
     \<and> map fst (host_calls (new_events empty_world w'))
         = [AsyncRequest, AsyncHead, AsyncRequest]"
proof -
  let ?calls = "[(GET, test_info), (HEAD, test_info), (POST, test_info)]"
  have "\<forall>c\<in>set ?calls. body_in_range (buffer_in (snd c)) (buffer_in_len (snd c))"
    by (simp add: test_info_in_range)
  from run_calls_returns [OF test_host_contract(2) this]
  obtain w' where
    "run_calls (test_host None)
       \<lparr>host_port = ''https://h'', use_sync_xhr = (has_xhr (test_host None) = 1)\<rparr>
       ?calls (log_event Probe empty_world) = Inr w'"
    by blast
  then obtain cl where
    run: "client_lifetime (test_host None) ''https://h'' ?calls empty_world = Inr (cl, w')"
    by (simp add: client_lifetime_def HTTPWasmClient_def em_has_xhr_def)
  from probe_once_mode_fixed [OF run] run show ?thesis
    by (simp add: test_host_def mode_primitive_def)
qed

lemma rename_reserved_never_reserved:
  "rename_reserved n \<noteq> ''Host''" "rename_reserved n \<noteq> ''User-Agent''"
  by (simp_all add: rename_reserved_def Let_def)

lemma rename_reserved_reserved:
  "rename_reserved (js_string ''Host'') = ''X-Host-Override''"
  "rename_reserved (js_string ''User-Agent'') = ''X-User-Agent''"
  by (simp_all add: rename_reserved_def js_string_def)

text \<open>
  C6. PrepareHeaders always succeeds and returns the pair count and a pointer array of
  \<open>2N\<close> cells; cell \<open>2k\<close> points to a copy of the name of pair \<open>k\<close> and cell \<open>2k + 1\<close> to a
  copy of its value, each the bytes of the string followed by a NUL, in the order of the
  header set; the header loop of the primitives, run on the heap PrepareHeaders leaves,
  calls \<^verbatim>\<open>setRequestHeader\<close> once per pair, in order, with the name renamed and the value
  as marshalled. In every dispatch of Get, Head, Post, Put or Delete that returns, in
  either mode, what the host call returns is the host's answer to the request with
  exactly these pairs installed: for each header of the request, in order, its name
  renamed and its value. A name that is exactly \<open>Host\<close> is installed as
  \<open>X-Host-Override\<close>, one that is exactly \<open>User-Agent\<close> as \<open>X-User-Agent\<close>, and no pair is
  installed under the name \<open>Host\<close> or \<open>User-Agent\<close>.
\<close>

theorem headers_marshalled_then_renamed:
  "(\<exists>z w1 ps. PrepareHeaders hs w = Inr ((z, length hs), w1)
       \<and> heap w1 z = Some (Ptrs ps) \<and> length ps = 2 * length hs
       \<and> (\<forall>k<length hs.
             heap w1 (ps ! (2 * k)) = Some (Chars (c_str (fst (hs ! k))))
             \<and> heap w1 (ps ! (2 * k + 1)) = Some (Chars (c_str (snd (hs ! k)))))
       \<and> js_set_request_headers (heap w1) (length hs) z
           = Some (map (\<lambda>(n, x). (rename_reserved (js_string n), js_string x)) hs))
   \<and> (\<forall>res info' w'. call_verb hst cl v info w = Inr (res, info', w') \<longrightarrow>
        host_calls (new_events w w')
          = [(verb_primitive cl v,
              host_answer hst cl v (js_string (NormalizeUrl (host_port cl) (url info)))
                (map (\<lambda>(n, x). (rename_reserved (js_string n), js_string x))
                   (req_headers info))
                (js_sent_body (verb_payload v info) (verb_body_len v info)))])
   \<and> rename_reserved (js_string ''Host'') = ''X-Host-Override''
   \<and> rename_reserved (js_string ''User-Agent'') = ''X-User-Agent''
   \<and> (\<forall>n. rename_reserved n \<noteq> ''Host'' \<and> rename_reserved n \<noteq> ''User-Agent'')"
proof -
  obtain H a T where w: "w = \<lparr>heap = H, next_addr = a, trace = T\<rparr>" by (cases w)
  let ?ps = "upfrom (Suc a) (length (flat hs))"
  let ?w' = "\<lparr>heap = marshalled H a (flat hs), next_addr = Suc a + length (flat hs),
             trace = T @ map Malloc (upfrom a (Suc (length (flat hs))))\<rparr>"
  have m: "marshalled H a (flat hs) = call_heap H a hs None"
    by (simp add: call_heap_def)
  have run: "PrepareHeaders hs w = Inr ((a, length hs), ?w')"
    by (simp only: w PrepareHeaders_eq)
  have arr: "heap ?w' a = Some (Ptrs ?ps)"
    by (simp add: m call_heap_array)
  have len: "length ?ps = 2 * length hs"
    by (simp add: length_upfrom length_flat)
  have cells: "heap ?w' (?ps ! (2 * k)) = Some (Chars (c_str (fst (hs ! k))))
             \<and> heap ?w' (?ps ! (2 * k + 1)) = Some (Chars (c_str (snd (hs ! k))))"
    if "k < length hs" for k
  proof -
    have k: "2 * k < length (flat hs)" "2 * k + 1 < length (flat hs)"
      using that by (simp_all add: length_flat)
    show ?thesis
      using call_heap_string [OF k(1), of H a None] call_heap_string [OF k(2), of H a None]
        flat_nth [OF that] k
      by (simp add: m nth_upfrom)
  qed
  have js: "js_set_request_headers (heap ?w') (length hs) a
           = Some (map (\<lambda>(n, x). (rename_reserved (js_string n), js_string x)) hs)"
    using js_headers_call_heap [of H a hs None]
    by (simp add: m installed_headers_def)
  have marshal: "\<exists>z w1 ps. PrepareHeaders hs w = Inr ((z, length hs), w1)
       \<and> heap w1 z = Some (Ptrs ps) \<and> length ps = 2 * length hs
       \<and> (\<forall>k<length hs.
             heap w1 (ps ! (2 * k)) = Some (Chars (c_str (fst (hs ! k))))
             \<and> heap w1 (ps ! (2 * k + 1)) = Some (Chars (c_str (snd (hs ! k)))))
       \<and> js_set_request_headers (heap w1) (length hs) z
           = Some (map (\<lambda>(n, x). (rename_reserved (js_string n), js_string x)) hs)"
    using run arr len cells js by blast
  have call: "host_calls (new_events w w')
          = [(verb_primitive cl v,
              host_answer hst cl v (js_string (NormalizeUrl (host_port cl) (url info)))
                (map (\<lambda>(n, x). (rename_reserved (js_string n), js_string x))
                   (req_headers info))
                (js_sent_body (verb_payload v info) (verb_body_len v info)))]"
    if ret: "call_verb hst cl v info w = Inr (res, info', w')" for res info' w'
  proof -
    from call_verb_new_events [OF ret] obtain r where
      r: "verb_reply hst cl v info (heap w) (next_addr w) = Inr r"
      and E: "new_events w w' = request_events (verb_primitive cl v) (next_addr w)
                 (req_headers info) (verb_payload v info) r (verb_tail v info r)"
      by blast
    have "r = host_answer hst cl v (js_string (NormalizeUrl (host_port cl) (url info)))
                (installed_headers (req_headers info))
                (js_sent_body (verb_payload v info) (verb_body_len v info))"
      using r verb_reply_eq [OF call_verb_in_range [OF ret], of hst cl "heap w" "next_addr w"]
      by (simp split: if_splits)
    then show ?thesis
      by (simp add: E request_events_summary events_of_verb_tail installed_headers_def)
  qed
  show ?thesis
    using marshal call rename_reserved_never_reserved rename_reserved_reserved
    by blast
qed

lemma echo_text_length:
  "length (encode_as_text [(''X-Host-Override'', ''example.com''), (''X-User-Agent'', ''x'')])
   < 2 ^ 32"
  by (simp add: encode_as_text_def)

theorem headers_marshalled_then_renamed_witness:
  "(\<exists>z w1. PrepareHeaders [(''Host'', ''example.com''), (''User-Agent'', ''x'')] empty_world
            = Inr ((z, 2), w1)
      \<and> js_set_request_headers (heap w1) 2 z
          = Some [(''X-Host-Override'', ''example.com''), (''X-User-Agent'', ''x'')])
   \<and> (\<exists>res info' w'. call_verb echo_host sync_client GET test_info empty_world
                        = Inr (res, info', w')
      \<and> host_calls (new_events empty_world w')
          = [(SyncRequest, Some (encode_wire (encode_as_text
                [(''X-Host-Override'', ''example.com''), (''X-User-Agent'', ''x'')])))]
      \<and> body res = encode_as_text
                [(''X-Host-Override'', ''example.com''), (''X-User-Agent'', ''x'')])
   \<and> (\<exists>res info' w'. call_verb echo_host test_client PUT test_info empty_world
                        = Inr (res, info', w')
      \<and> host_calls (new_events empty_world w')
          = [(AsyncRequest, Some (encode_wire (encode_as_text
                [(''X-Host-Override'', ''example.com''), (''X-User-Agent'', ''x'')])))]
      \<and> body res = encode_as_text
                [(''X-Host-Override'', ''example.com''), (''X-User-Agent'', ''x'')])"
proof -
  let ?hs = "[(''Host'', ''example.com''), (''User-Agent'', ''x'')]"
  let ?inst = "[(''X-Host-Override'', ''example.com''), (''X-User-Agent'', ''x'')]"
  have hs: "req_headers test_info = ?hs" by (simp add: test_info_def)
  from headers_marshalled_then_renamed [of ?hs empty_world]
  obtain z w1 where "PrepareHeaders ?hs empty_world = Inr ((z, length ?hs), w1)"
    and "js_set_request_headers (heap w1) (length ?hs) z
           = Some (map (\<lambda>(n, x). (rename_reserved (js_string n), js_string x)) ?hs)"
    by blast
  then have 1: "\<exists>z w1. PrepareHeaders ?hs empty_world = Inr ((z, 2), w1)
      \<and> js_set_request_headers (heap w1) 2 z = Some ?inst"
    by (simp add: rename_reserved_def js_string_def numeral_2_eq_2)
  have rng: "body_in_range (verb_body v test_info) (verb_body_len v test_info)" for v
    using verb_body_in_range [OF test_info_in_range] .
  have dec: "decode_wire (encode_wire (encode_as_text ?inst)) = Inr (encode_as_text ?inst)"
    by (rule decode_encode_wire) (rule echo_text_length)
  have r2: "verb_reply echo_host sync_client GET test_info (heap empty_world)
              (next_addr empty_world) = Inr (Some (encode_wire (encode_as_text ?inst)))"
    by (simp add: verb_reply_eq [OF rng] host_answer_def echo_host_def echo_browser_def
        sync_client_def xhr_request_def installed_headers_def hs rename_reserved_def
        js_string_def)
  from call_verb_eq_world [OF rng r2] obtain info2 w2 where
    run2: "call_verb echo_host sync_client GET test_info empty_world
           = Inr (success_response GET (encode_as_text ?inst), info2, w2)"
    by (simp add: verb_outcome_def dec)
  from headers_marshalled_then_renamed [where hst = echo_host and cl = sync_client
      and v = GET and info = test_info and w = empty_world] run2
  have "host_calls (new_events empty_world w2)
        = [(verb_primitive sync_client GET,
            host_answer echo_host sync_client GET
              (js_string (NormalizeUrl (host_port sync_client) (url test_info)))
              (map (\<lambda>(n, x). (rename_reserved (js_string n), js_string x))
                 (req_headers test_info))
              (js_sent_body (verb_payload GET test_info) (verb_body_len GET test_info)))]"
    by blast
  then have hc2: "host_calls (new_events empty_world w2)
        = [(SyncRequest, Some (encode_wire (encode_as_text ?inst)))]"
    by (simp add: hs host_answer_def echo_host_def echo_browser_def sync_client_def
        xhr_request_def verb_primitive_def request_primitive_def rename_reserved_def
        js_string_def)
  have b2: "body (success_response GET (encode_as_text ?inst)) = encode_as_text ?inst"
    by (simp add: body_success_response)
  have r3: "verb_reply echo_host test_client PUT test_info (heap empty_world)
              (next_addr empty_world) = Inr (Some (encode_wire (encode_as_text ?inst)))"
    by (simp add: verb_reply_eq [OF rng] host_answer_def echo_host_def test_client_def
        installed_headers_def hs rename_reserved_def js_string_def)
  from call_verb_eq_world [OF rng r3] obtain info3 w3 where
    run3: "call_verb echo_host test_client PUT test_info empty_world
           = Inr (success_response PUT (encode_as_text ?inst), info3, w3)"
    by (simp add: verb_outcome_def dec)
  from headers_marshalled_then_renamed [where hst = echo_host and cl = test_client
      and v = PUT and info = test_info and w = empty_world] run3
  have "host_calls (new_events empty_world w3)
        = [(verb_primitive test_client PUT,
            host_answer echo_host test_client PUT
              (js_string (NormalizeUrl (host_port test_client) (url test_info)))
              (map (\<lambda>(n, x). (rename_reserved (js_string n), js_string x))
                 (req_headers test_info))
              (js_sent_body (verb_payload PUT test_info) (verb_body_len PUT test_info)))]"
    by blast
  then have hc3: "host_calls (new_events empty_world w3)
        = [(AsyncRequest, Some (encode_wire (encode_as_text ?inst)))]"
    by (simp add: hs host_answer_def echo_host_def test_client_def
        verb_primitive_def request_primitive_def rename_reserved_def js_string_def)
  have b3: "body (success_response PUT (encode_as_text ?inst)) = encode_as_text ?inst"
    by (simp add: body_success_response)
  show ?thesis
    using 1 run2 hc2 b2 run3 hc3 b3 by blast
qed

subsection \<open>The Arrow IPC ingestion helper\<close>

text \<open>
  C9. When the connection, the table name or the buffer pointer is null, or the buffer
  length is zero, the helper returns \<open>DuckDBError\<close> and makes no library call: no stream
  is created and no SQL is executed.
\<close>

theorem insert_arrow_ipc_rejects_invalid_input:
  assumes "connection = None \<or> table_name = None \<or> ipc_buffer = None \<or> buffer_length = 0"
  shows "duckdb_wasm_insert_arrow_ipc lib connection table_name ipc_buffer buffer_length calls
         = (DuckDBError, calls)"
  using assms
  by (auto simp: duckdb_wasm_insert_arrow_ipc_def split: option.splits)

theorem insert_arrow_ipc_rejects_invalid_input_witness:
  "duckdb_wasm_insert_arrow_ipc test_library None (Some ''t'') (Some ''abc'') 3 []
     = (DuckDBError, [])
   \<and> duckdb_wasm_insert_arrow_ipc test_library (Some 1) None (Some ''abc'') 3 []
     = (DuckDBError, [])
   \<and> duckdb_wasm_insert_arrow_ipc test_library (Some 1) (Some ''t'') None 3 []
     = (DuckDBError, [])
   \<and> duckdb_wasm_insert_arrow_ipc test_library (Some 1) (Some ''t'') (Some ''abc'') 0 []
     = (DuckDBError, [])
   \<and> fst (duckdb_wasm_insert_arrow_ipc test_library (Some 1) (Some ''t'') (Some ''abc'') 3 [])
     = DuckDBSuccess
   \<and> length (snd (duckdb_wasm_insert_arrow_ipc test_library (Some 1) (Some ''t'')
                     (Some ''abc'') 3 [])) = 10"
  using insert_arrow_ipc_rejects_invalid_input
      [of None "Some ''t''" "Some ''abc''" 3 test_library "[]"]
    insert_arrow_ipc_rejects_invalid_input
      [of "Some 1" None "Some ''abc''" 3 test_library "[]"]
    insert_arrow_ipc_rejects_invalid_input
      [of "Some 1" "Some ''t''" None 3 test_library "[]"]
    insert_arrow_ipc_rejects_invalid_input
      [of "Some 1" "Some ''t''" "Some ''abc''" 0 test_library "[]"]
  by (simp add: duckdb_wasm_insert_arrow_ipc_def test_library_def Let_def)

end
